theory Spec2Isabelle
  imports Complex_Main
begin

section \<open>Decimal amounts and quantization (app/utils.py)\<close>

text \<open>
  Python \<open>Decimal\<close> amounts are modelled by their exact rational values. The context
  precision of the \<open>decimal\<close> module (28 significant digits) is not modelled. Sums,
  differences and products of the amounts the calculator handles are exact in Python as long
  as they stay below 28 digits. The one division (line 104) and the product that follows it
  (line 105) are rounded by Python to 28 significant digits and are exact here; the two can
  differ by one cent after quantization, and only when the exact product lies within a
  relative distance of about 10 to the power -27 of a half cent.

  \<open>quant\<close> is \<open>Decimal(v).quantize(Decimal("0.01"), rounding=ROUND_HALF_UP)\<close>: the
  nearest multiple of 0.01, a tie going away from zero.
\<close>

definition quant :: "rat \<Rightarrow> rat" where
  "quant v =
     (if 0 \<le> v then of_int \<lfloor>v * 100 + 1 / 2\<rfloor> / 100
      else - (of_int \<lfloor>- v * 100 + 1 / 2\<rfloor> / 100))"

datatype py_error = DivisionByZero | InvalidOperation | KeyError | OverflowError

text \<open>
  \<open>a / b\<close> on \<open>Decimal\<close>: a zero divisor signals \<open>DivisionByZero\<close>, and
  \<open>InvalidOperation\<close> when the dividend is zero as well; both are raised under the default
  context.
\<close>

definition decimal_div :: "rat \<Rightarrow> rat \<Rightarrow> py_error + rat" where
  "decimal_div a b =
     (if b = 0 then (if a = 0 then Inl InvalidOperation else Inl DivisionByZero)
      else Inr (a / b))"

section \<open>Dictionaries\<close>

text \<open>
  A Python \<open>dict\<close> with string keys is an association list in insertion order:
  \<open>d[k] = v\<close> overwrites the value of a key that is present and appends a new key at the end;
  \<open>d.get(k, default)\<close> and \<open>k in d\<close> read it through \<open>map_of\<close>.
\<close>

type_synonym 'v dict = "(string \<times> 'v) list"

fun dict_set :: "'v dict \<Rightarrow> string \<Rightarrow> 'v \<Rightarrow> 'v dict" where
  "dict_set [] k v = [(k, v)]"
| "dict_set ((k', v') # d) k v = (if k' = k then (k, v) # d else (k', v') # dict_set d k v)"

definition dict_get :: "'v dict \<Rightarrow> string \<Rightarrow> 'v \<Rightarrow> 'v" where
  "dict_get d k dflt = (case map_of d k of None \<Rightarrow> dflt | Some v \<Rightarrow> v)"

definition dict_keys :: "'v dict \<Rightarrow> string list" where
  "dict_keys d = map fst d"

definition dict_has :: "'v dict \<Rightarrow> string \<Rightarrow> bool" where
  "dict_has d k = (map_of d k \<noteq> None)"

section \<open>Calendar dates\<close>

record date =
  year :: nat
  month :: nat
  day :: nat

definition isleap :: "nat \<Rightarrow> bool" where
  "isleap y = (y mod 4 = 0 \<and> (y mod 100 \<noteq> 0 \<or> y mod 400 = 0))"

text \<open>\<open>calendar.monthrange(y, m)[1]\<close>: the number of days of month \<open>m\<close> of year \<open>y\<close>.\<close>

definition monthrange_days :: "nat \<Rightarrow> nat \<Rightarrow> nat" where
  "monthrange_days y m =
     (if m = 2 then (if isleap y then 29 else 28)
      else if m = 4 \<or> m = 6 \<or> m = 9 \<or> m = 11 then 30 else 31)"

definition valid_date :: "date \<Rightarrow> bool" where
  "valid_date d =
     (1 \<le> year d \<and> year d \<le> 9999 \<and> 1 \<le> month d \<and> month d \<le> 12 \<and>
      1 \<le> day d \<and> day d \<le> monthrange_days (year d) (month d))"

text \<open>Comparison of dates is the comparison of (year, month, day).\<close>

definition date_le :: "date \<Rightarrow> date \<Rightarrow> bool" where
  "date_le a b =
     (year a < year b \<or>
      (year a = year b \<and> (month a < month b \<or> (month a = month b \<and> day a \<le> day b))))"

definition next_day :: "date \<Rightarrow> date" where
  "next_day d =
     (if day d < monthrange_days (year d) (month d)
        then \<lparr>year = year d, month = month d, day = day d + 1\<rparr>
      else if month d < 12 then \<lparr>year = year d, month = month d + 1, day = 1\<rparr>
      else \<lparr>year = year d + 1, month = 1, day = 1\<rparr>)"

definition prev_day :: "date \<Rightarrow> date" where
  "prev_day d =
     (if 1 < day d then \<lparr>year = year d, month = month d, day = day d - 1\<rparr>
      else if 1 < month d
        then \<lparr>year = year d, month = month d - 1,
              day = monthrange_days (year d) (month d - 1)\<rparr>
      else \<lparr>year = year d - 1, month = 12, day = 31\<rparr>)"

text \<open>
  \<open>d + timedelta(days=n)\<close> and \<open>d - timedelta(days=n)\<close> for \<open>n \<ge> 0\<close>; a result outside
  the years 1 to 9999 raises \<open>OverflowError\<close>.
\<close>

definition date_add_days :: "date \<Rightarrow> nat \<Rightarrow> py_error + date" where
  "date_add_days d n =
     (let r = (next_day ^^ n) d in if 9999 < year r then Inl OverflowError else Inr r)"

definition date_sub_days :: "date \<Rightarrow> nat \<Rightarrow> py_error + date" where
  "date_sub_days d n =
     (let r = (prev_day ^^ n) d in if year r < 1 then Inl OverflowError else Inr r)"

text \<open>\<open>date.toordinal()\<close> and \<open>date.weekday()\<close> (Monday is 0), as in the standard library.\<close>

definition days_before_year :: "nat \<Rightarrow> nat" where
  "days_before_year y =
     (let z = y - 1 in z * 365 + z div 4 + z div 400 - z div 100)"

definition days_before_month :: "nat \<Rightarrow> nat \<Rightarrow> nat" where
  "days_before_month y m = sum_list (map (monthrange_days y) [1..<m])"

definition toordinal :: "date \<Rightarrow> nat" where
  "toordinal d = days_before_year (year d) + days_before_month (year d) (month d) + day d"

definition weekday :: "date \<Rightarrow> nat" where
  "weekday d = (toordinal d + 6) mod 7"

definition week_start_end_for_date :: "date \<Rightarrow> py_error + (date \<times> date)" where
  "week_start_end_for_date ref_date =
     (case date_sub_days ref_date (weekday ref_date) of
        Inl e \<Rightarrow> Inl e
      | Inr monday \<Rightarrow>
          (case date_add_days monday 6 of
             Inl e \<Rightarrow> Inl e
           | Inr sunday \<Rightarrow> Inr (monday, sunday)))"

definition is_last_week_of_month :: "date \<Rightarrow> date \<Rightarrow> bool" where
  "is_last_week_of_month wk_start wk_end =
     (let last_day = \<lparr>year = year wk_start, month = month wk_start,
                       day = monthrange_days (year wk_start) (month wk_start)\<rparr>
      in date_le wk_start last_day \<and> date_le last_day wk_end)"

section \<open>Configuration (config.py)\<close>

record config =
  FIXED_SHARES :: "rat dict"
  FELIX_DAILY_SALARY :: rat
  RENT :: rat
  MILK_BILL :: rat
  DEBT_PERCENT :: rat

definition Config :: config where
  "Config =
     \<lparr>FIXED_SHARES = [(''Bett'', 775 / 1000), (''Felix'', 86 / 1000), (''Willy'', 139 / 1000)],
      FELIX_DAILY_SALARY = 1000,
      RENT = 12000,
      MILK_BILL = 1500,
      DEBT_PERCENT = 10 / 100\<rparr>"

section \<open>The settlement calculator (app/utils.py, calculate\_settlement\_values)\<close>

record settlement_values =
  income :: rat
  expenses :: rat
  salary_total :: rat
  debt :: rat
  rent :: rat
  milk :: rat
  total_advances :: rat
  net_distributable :: rat
  gross_shares :: "rat dict"
  net_payouts :: "rat dict"
  week_start :: date
  week_end :: date
  felix_substitute :: bool

text \<open>
  Lines 80 to 91: the first pass over \<open>FIXED_SHARES.items()\<close>. The state is
  \<open>(initial_payouts, over_advance_members, total_over_advance)\<close>.
\<close>

fun first_pass ::
  "rat \<Rightarrow> rat dict \<Rightarrow> rat dict \<Rightarrow> rat dict \<times> rat dict \<times> rat \<Rightarrow> rat dict \<times> rat dict \<times> rat"
where
  "first_pass nd advances_dict [] st = st"
| "first_pass nd advances_dict ((name, ratio) # rest) (initial_payouts, over_advance_members, total_over_advance) =
     (let gross = quant (nd * ratio);
          advance = quant (dict_get advances_dict name 0);
          net_payout = gross - advance
      in if net_payout < 0
         then first_pass nd advances_dict rest
                (dict_set initial_payouts name 0,
                 dict_set over_advance_members name (- net_payout),
                 total_over_advance + - net_payout)
         else first_pass nd advances_dict rest
                (dict_set initial_payouts name net_payout,
                 over_advance_members,
                 total_over_advance))"

text \<open>Lines 96 to 99: the share total of the members that did not over-advance.\<close>

fun valid_share_total_loop ::
  "rat dict \<Rightarrow> rat dict \<Rightarrow> string list \<Rightarrow> rat \<Rightarrow> py_error + rat"
where
  "valid_share_total_loop shares over_advance_members [] acc = Inr acc"
| "valid_share_total_loop shares over_advance_members (name # names) acc =
     (if \<not> dict_has over_advance_members name
      then (case map_of shares name of
              None \<Rightarrow> Inl KeyError
            | Some r \<Rightarrow> valid_share_total_loop shares over_advance_members names (acc + r))
      else valid_share_total_loop shares over_advance_members names acc)"

text \<open>Lines 102 to 106: the loop over \<open>initial_payouts.keys()\<close>.\<close>

fun redistribute_loop ::
  "rat dict \<Rightarrow> rat dict \<Rightarrow> rat \<Rightarrow> rat \<Rightarrow> string list \<Rightarrow> rat dict \<Rightarrow> py_error + rat dict"
where
  "redistribute_loop shares over_advance_members total_over_advance valid_share_total [] initial_payouts =
     Inr initial_payouts"
| "redistribute_loop shares over_advance_members total_over_advance valid_share_total (name # names) initial_payouts =
     (if \<not> dict_has over_advance_members name
      then (case map_of shares name of
              None \<Rightarrow> Inl KeyError
            | Some r \<Rightarrow>
                (case decimal_div r valid_share_total of
                   Inl e \<Rightarrow> Inl e
                 | Inr redistribution_ratio \<Rightarrow>
                     (let additional_share = quant (total_over_advance * redistribution_ratio)
                      in case map_of initial_payouts name of
                           None \<Rightarrow> Inl KeyError
                         | Some p \<Rightarrow>
                             redistribute_loop shares over_advance_members total_over_advance
                               valid_share_total names
                               (dict_set initial_payouts name (p + additional_share)))))
      else redistribute_loop shares over_advance_members total_over_advance valid_share_total
             names initial_payouts)"

text \<open>Lines 94 to 106.\<close>

definition redistribute ::
  "rat dict \<Rightarrow> rat dict \<Rightarrow> rat \<Rightarrow> rat dict \<Rightarrow> py_error + rat dict"
where
  "redistribute shares over_advance_members total_over_advance initial_payouts =
     (if 0 < total_over_advance
      then (case valid_share_total_loop shares over_advance_members (dict_keys shares) 0 of
              Inl e \<Rightarrow> Inl e
            | Inr valid_share_total \<Rightarrow>
                redistribute_loop shares over_advance_members total_over_advance
                  valid_share_total (dict_keys initial_payouts) initial_payouts)
      else Inr initial_payouts)"

text \<open>Lines 110 to 117: the salary of the member named Felix.\<close>

fun final_payouts_loop :: "bool \<Rightarrow> rat \<Rightarrow> rat dict \<Rightarrow> rat dict \<Rightarrow> rat dict" where
  "final_payouts_loop sub sal [] final_payouts = final_payouts"
| "final_payouts_loop sub sal ((name, payout) # rest) final_payouts =
     (if name = ''Felix'' \<and> \<not> sub
      then final_payouts_loop sub sal rest (dict_set final_payouts name (payout + sal))
      else final_payouts_loop sub sal rest (dict_set final_payouts name payout))"

text \<open>Lines 120 to 122.\<close>

fun gross_shares_loop :: "rat \<Rightarrow> rat dict \<Rightarrow> rat dict \<Rightarrow> rat dict" where
  "gross_shares_loop nd [] gross = gross"
| "gross_shares_loop nd ((name, ratio) # rest) gross =
     gross_shares_loop nd rest (dict_set gross name (quant (nd * ratio)))"

definition calculate_settlement_values ::
  "config \<Rightarrow> rat \<Rightarrow> rat \<Rightarrow> rat dict \<Rightarrow> date \<Rightarrow> date \<Rightarrow> bool \<Rightarrow> py_error + settlement_values"
where
  "calculate_settlement_values cfg total_income total_expenses advances_dict wk_start wk_end sub =
     (let inc = quant total_income;
          exps = quant total_expenses;
          sal = (if \<not> sub then quant (FELIX_DAILY_SALARY cfg * 7) else 0);
          dbt = quant (inc * DEBT_PERCENT cfg);
          last_week = is_last_week_of_month wk_start wk_end;
          rnt = (if last_week then RENT cfg else 0);
          mlk = (if last_week then MILK_BILL cfg else 0);
          tot_adv = quant (sum_list (map snd advances_dict));
          net = inc - (exps + sal + dbt + rnt + mlk);
          nd = quant (max net 0);
          (initial_payouts, over_advance_members, total_over_advance) =
             first_pass nd advances_dict (FIXED_SHARES cfg) ([], [], 0)
      in case redistribute (FIXED_SHARES cfg) over_advance_members total_over_advance
                initial_payouts of
           Inl e \<Rightarrow> Inl e
         | Inr payouts \<Rightarrow>
             Inr \<lparr>income = inc, expenses = exps, salary_total = sal, debt = dbt,
                  rent = rnt, milk = mlk, total_advances = tot_adv,
                  net_distributable = nd,
                  gross_shares = gross_shares_loop nd (FIXED_SHARES cfg) [],
                  net_payouts = final_payouts_loop sub sal payouts [],
                  week_start = wk_start, week_end = wk_end, felix_substitute = sub\<rparr>)"

section \<open>Persistent state and the request handlers (app/models.py, app/routes.py)\<close>

text \<open>
  The rows the handlers read and write. Users, members, notifications and the audit
  transactions do not influence the settlement figures or the debt row and are left out; the
  logged-in user is represented by its role. The text of the success messages is left out as
  well.
\<close>

record Debt =
  total_debt :: rat
  remaining_debt :: rat

record Settlement =
  settlement_id :: nat
  s_week_start :: date
  s_week_end :: date
  total_income :: rat
  total_expenses :: rat
  salary_deduction :: rat
  debt_deduction :: rat
  rent_deduction :: "rat option"
  milk_deduction :: "rat option"
  s_total_advances :: rat
  s_net_distributable :: rat
  s_felix_substitute :: bool
  is_completed :: bool

record SettlementItem =
  item_settlement_id :: nat
  member_name :: string
  share_ratio :: rat
  gross_share :: rat
  advance :: rat
  net_payout :: rat

record WeeklyAdvance =
  adv_member_name :: string
  amount :: rat
  adv_week_start :: date
  adv_week_end :: date

record database =
  debt_row :: "Debt option"
  settlements :: "Settlement list"
  settlement_items :: "SettlementItem list"
  weekly_advances :: "WeeklyAdvance list"

datatype response = Success | Failure string

text \<open>\<open>get_weekly_advances\<close>: the advances of one week, summed per member.\<close>

fun weekly_advances_loop :: "WeeklyAdvance list \<Rightarrow> rat dict \<Rightarrow> rat dict" where
  "weekly_advances_loop [] advances_dict = advances_dict"
| "weekly_advances_loop (a # rest) advances_dict =
     weekly_advances_loop rest
       (dict_set advances_dict (adv_member_name a)
          (dict_get advances_dict (adv_member_name a) 0 + amount a))"

definition get_weekly_advances :: "database \<Rightarrow> date \<Rightarrow> date \<Rightarrow> rat dict" where
  "get_weekly_advances db wk_start wk_end =
     weekly_advances_loop
       (filter (\<lambda>a. adv_week_start a = wk_start \<and> adv_week_end a = wk_end) (weekly_advances db))
       []"

text \<open>
  \<open>validate_settlement_data\<close> (app/utils.py, lines 257 to 280): the list of error
  messages, empty when the data is accepted.
\<close>

definition validate_settlement_data :: "database \<Rightarrow> rat \<Rightarrow> rat \<Rightarrow> date \<Rightarrow> string list" where
  "validate_settlement_data db inc exps ref_date =
     (if inc \<le> 0 then [''Income must be greater than 0''] else []) @
     (if exps < 0 then [''Expenses cannot be negative''] else []) @
     (if inc < exps then [''Income cannot be less than expenses''] else []) @
     (case week_start_end_for_date ref_date of
        Inl e \<Rightarrow> [''Invalid date format'']
      | Inr (wk_start, wk_end) \<Rightarrow>
          (if filter (\<lambda>s. s_week_start s = wk_start \<and> s_week_end s = wk_end) (settlements db) \<noteq> []
           then [''A settlement already exists for this week''] else []))"

text \<open>
  The debt transition of \<open>api_create_settlement\<close> (app/routes.py, lines 162 to 179): the
  new debt row and \<open>actual_payment\<close>.
\<close>

definition apply_debt_payment :: "Debt \<Rightarrow> rat \<Rightarrow> Debt \<times> rat" where
  "apply_debt_payment d debt_payment =
     (if 0 < remaining_debt d
      then (if remaining_debt d \<le> debt_payment
            then (d\<lparr>remaining_debt := 0\<rparr>, remaining_debt d)
            else (d\<lparr>remaining_debt := remaining_debt d - debt_payment\<rparr>, debt_payment))
      else (d\<lparr>total_debt := total_debt d + debt_payment,
               remaining_debt := remaining_debt d + debt_payment\<rparr>, 0))"

definition new_settlement_id :: "database \<Rightarrow> nat" where
  "new_settlement_id db = Suc (fold max (map settlement_id (settlements db)) 0)"

text \<open>
  \<open>api_create_settlement\<close> (app/routes.py, lines 119 to 217). \<open>ref_date\<close> is the parsed
  date of the request, \<open>None\<close> when it is absent or does not parse, in which case today's
  date is used. An exception leaves the handler and nothing is committed. The items are built
  for the names of \<open>calc["gross_shares"]\<close>, which are also the names of
  \<open>calc["net_payouts"]\<close>, so the two subscripts are read with \<open>dict_get\<close>; the
  source stores the gross share in the column \<open>share_ratio\<close> as well.
\<close>

definition api_create_settlement ::
  "config \<Rightarrow> date \<Rightarrow> date option \<Rightarrow> rat \<Rightarrow> rat \<Rightarrow> bool \<Rightarrow> database \<Rightarrow> py_error + (response \<times> database)"
where
  "api_create_settlement cfg today ref_date_opt inc exps sub db =
     (let ref_date = (case ref_date_opt of None \<Rightarrow> today | Some d \<Rightarrow> d)
      in case week_start_end_for_date ref_date of
           Inl e \<Rightarrow> Inl e
         | Inr (wk_start, wk_end) \<Rightarrow>
             (let advances_dict = get_weekly_advances db wk_start wk_end
              in case calculate_settlement_values cfg inc exps advances_dict wk_start wk_end sub of
                   Inl e \<Rightarrow> Inl e
                 | Inr calc \<Rightarrow>
                     (let sid = new_settlement_id db;
                          settlement =
                            \<lparr>settlement_id = sid,
                             s_week_start = wk_start,
                             s_week_end = wk_end,
                             total_income = income calc,
                             total_expenses = expenses calc,
                             salary_deduction = salary_total calc,
                             debt_deduction = debt calc,
                             rent_deduction = (if 0 < rent calc then Some (rent calc) else None),
                             milk_deduction = (if 0 < milk calc then Some (milk calc) else None),
                             s_total_advances = total_advances calc,
                             s_net_distributable = net_distributable calc,
                             s_felix_substitute = sub,
                             is_completed = False\<rparr>;
                          d0 = (case debt_row db of
                                  None \<Rightarrow> \<lparr>total_debt = 0, remaining_debt = 0\<rparr>
                                | Some d \<Rightarrow> d);
                          (d1, actual_payment) = apply_debt_payment d0 (debt calc);
                          items =
                            map (\<lambda>name.
                                   \<lparr>item_settlement_id = sid,
                                    member_name = name,
                                    share_ratio = dict_get (gross_shares calc) name 0,
                                    gross_share = dict_get (gross_shares calc) name 0,
                                    advance = quant (dict_get advances_dict name 0),
                                    net_payout = dict_get (net_payouts calc) name 0\<rparr>)
                              (dict_keys (gross_shares calc))
                      in Inr (Success,
                              db\<lparr>debt_row := Some d1,
                                 settlements := settlements db @ [settlement],
                                 settlement_items := settlement_items db @ items\<rparr>))))"

text \<open>\<open>api_update_debt\<close> (app/routes.py, lines 461 to 487).\<close>

definition api_update_debt :: "string \<Rightarrow> rat \<Rightarrow> database \<Rightarrow> response \<times> database" where
  "api_update_debt role new_remaining db =
     (if role \<noteq> ''admin'' then (Failure ''Admin access required'', db)
      else case debt_row db of
             Some d \<Rightarrow> (Success, db\<lparr>debt_row := Some (d\<lparr>remaining_debt := new_remaining\<rparr>)\<rparr>)
           | None \<Rightarrow> (Failure ''Debt record not found'', db))"

text \<open>
  The debt reversal of \<open>api_delete_settlement\<close> (app/routes.py, lines 568 to 573), and
  the handler (lines 545 to 600).
\<close>

definition reverse_debt_payment :: "Debt \<Rightarrow> rat \<Rightarrow> Debt" where
  "reverse_debt_payment d deduction =
     (if 0 < deduction
      then (let d1 = d\<lparr>remaining_debt := remaining_debt d + deduction\<rparr>
            in if total_debt d1 < remaining_debt d1
               then d1\<lparr>total_debt := remaining_debt d1\<rparr> else d1)
      else d)"

definition api_delete_settlement :: "string \<Rightarrow> nat \<Rightarrow> database \<Rightarrow> response \<times> database" where
  "api_delete_settlement role sid db =
     (if role \<noteq> ''admin'' then (Failure ''Admin access required'', db)
      else case filter (\<lambda>s. settlement_id s = sid) (settlements db) of
             [] \<Rightarrow> (Failure ''Error deleting settlement'', db)
           | settlement # _ \<Rightarrow>
               (if is_completed settlement
                then (Failure ''Cannot delete completed settlements'', db)
                else (Success,
                      db\<lparr>debt_row := map_option (\<lambda>d. reverse_debt_payment d (debt_deduction settlement))
                                        (debt_row db),
                         settlements := filter (\<lambda>s. settlement_id s \<noteq> sid) (settlements db),
                         settlement_items :=
                           filter (\<lambda>i. item_settlement_id i \<noteq> sid) (settlement_items db)\<rparr>)))"

definition debt_invariant :: "Debt \<Rightarrow> bool" where
  "debt_invariant d = (0 \<le> remaining_debt d \<and> remaining_debt d \<le> total_debt d)"

section \<open>Notions used in the statements\<close>

text \<open>
  A configuration is well formed when the share table has no repeated name (it is a
  dictionary) and every share ratio is positive.
\<close>

definition valid_config :: "config \<Rightarrow> bool" where
  "valid_config cfg =
     (distinct (map fst (FIXED_SHARES cfg)) \<and> list_all (\<lambda>m. 0 < snd m) (FIXED_SHARES cfg))"

text \<open>
  The gross share of a member of the share table minus the advance (line 83), and the members
  whose advance exceeds their gross share.
\<close>

definition share_payout :: "rat \<Rightarrow> rat dict \<Rightarrow> string \<times> rat \<Rightarrow> rat" where
  "share_payout nd advances_dict m =
     quant (nd * snd m) - quant (dict_get advances_dict (fst m) 0)"

definition over_advanced :: "rat \<Rightarrow> rat dict \<Rightarrow> string \<times> rat \<Rightarrow> bool" where
  "over_advanced nd advances_dict m = (share_payout nd advances_dict m < 0)"

text \<open>
  The entries the first pass writes for a member: the payout (zero for an over-advanced
  member) and the recorded excess.
\<close>

definition payout_after_first_pass :: "rat \<Rightarrow> rat dict \<Rightarrow> string \<times> rat \<Rightarrow> string \<times> rat" where
  "payout_after_first_pass nd adv m =
     (fst m, if over_advanced nd adv m then 0 else share_payout nd adv m)"

definition excess_entry :: "rat \<Rightarrow> rat dict \<Rightarrow> string \<times> rat \<Rightarrow> string \<times> rat" where
  "excess_entry nd adv m = (fst m, - share_payout nd adv m)"

text \<open>The salary deduction (lines 57 to 59) and the net distributable amount (lines 61 to 73).\<close>

definition salary_of :: "config \<Rightarrow> bool \<Rightarrow> rat" where
  "salary_of cfg sub = (if \<not> sub then quant (FELIX_DAILY_SALARY cfg * 7) else 0)"

definition net_distributable_of :: "config \<Rightarrow> rat \<Rightarrow> rat \<Rightarrow> date \<Rightarrow> date \<Rightarrow> bool \<Rightarrow> rat" where
  "net_distributable_of cfg ti te wk_start wk_end sub =
     quant (max (quant ti -
                 (quant te + salary_of cfg sub +
                  quant (quant ti * DEBT_PERCENT cfg) +
                  (if is_last_week_of_month wk_start wk_end then RENT cfg else 0) +
                  (if is_last_week_of_month wk_start wk_end then MILK_BILL cfg else 0))) 0)"

text \<open>
  The total over-advance, the share total of the members that did not over-advance, and the
  payout of a member after the redistribution and before the salary step.
\<close>

definition total_excess :: "rat \<Rightarrow> rat dict \<Rightarrow> rat dict \<Rightarrow> rat" where
  "total_excess nd adv shares =
     sum_list (map (\<lambda>m. - share_payout nd adv m) (filter (over_advanced nd adv) shares))"

definition normal_share_total :: "rat \<Rightarrow> rat dict \<Rightarrow> rat dict \<Rightarrow> rat" where
  "normal_share_total nd adv shares =
     sum_list (map snd (filter (\<lambda>m. \<not> over_advanced nd adv m) shares))"

definition provisional_payout :: "rat \<Rightarrow> rat dict \<Rightarrow> rat dict \<Rightarrow> string \<times> rat \<Rightarrow> rat" where
  "provisional_payout nd adv shares m =
     (if over_advanced nd adv m then 0
      else if 0 < total_excess nd adv shares
        then share_payout nd adv m +
             quant (total_excess nd adv shares * (snd m / normal_share_total nd adv shares))
      else share_payout nd adv m)"

text \<open>
  Dates whose month and day are in range, the last day of the month of a date, and the seven
  days of the week that starts on a date.
\<close>

definition date_fields_ok :: "date \<Rightarrow> bool" where
  "date_fields_ok d =
     (1 \<le> month d \<and> month d \<le> 12 \<and> 1 \<le> day d \<and> day d \<le> monthrange_days (year d) (month d))"

definition last_day_of_month :: "date \<Rightarrow> date" where
  "last_day_of_month d =
     \<lparr>year = year d, month = month d, day = monthrange_days (year d) (month d)\<rparr>"

definition week_days :: "date \<Rightarrow> date list" where
  "week_days wk_start = map (\<lambda>k. (next_day ^^ k) wk_start) [0..<7]"

definition empty_db :: database where
  "empty_db = \<lparr>debt_row = None, settlements = [], settlement_items = [], weekly_advances = []\<rparr>"

section \<open>Basic facts\<close>

lemma quant_zero: "quant 0 = 0"
  by (simp add: quant_def floor_eq_iff)

lemma quant_nonneg: "0 \<le> v \<Longrightarrow> 0 \<le> quant v"
  by (simp add: quant_def)

lemma round_half_error: "\<bar>rat_of_int \<lfloor>x + 1 / 2\<rfloor> - x\<bar> \<le> 1 / 2"
proof -
  have "of_int \<lfloor>x + 1 / 2\<rfloor> \<le> x + 1 / 2" by (rule of_int_floor_le)
  moreover have "x + 1 / 2 < of_int \<lfloor>x + 1 / 2\<rfloor> + 1" by linarith
  ultimately show ?thesis by linarith
qed

lemma quant_error: "\<bar>quant v - v\<bar> \<le> 1 / 200"
proof (cases "0 \<le> v")
  case True
  define k where "k = rat_of_int \<lfloor>v * 100 + 1 / 2\<rfloor>"
  have "\<bar>k - v * 100\<bar> \<le> 1 / 2" unfolding k_def by (rule round_half_error)
  then have b: "k - v * 100 \<le> 1 / 2" "- (1 / 2) \<le> k - v * 100" by linarith+
  have q: "quant v = k / 100" using True by (simp add: quant_def k_def)
  show ?thesis unfolding q abs_le_iff using b by linarith
next
  case False
  define k where "k = rat_of_int \<lfloor>- v * 100 + 1 / 2\<rfloor>"
  have "\<bar>k - (- v * 100)\<bar> \<le> 1 / 2" unfolding k_def by (rule round_half_error)
  then have b: "k + v * 100 \<le> 1 / 2" "- (1 / 2) \<le> k + v * 100" by linarith+
  have q: "quant v = - (k / 100)" using False by (simp add: quant_def k_def)
  show ?thesis unfolding q abs_le_iff using b by linarith
qed

lemma funpow_unroll:
  "(f ^^ 2) x = f (f x)"
  "(f ^^ 3) x = f (f (f x))"
  "(f ^^ 4) x = f (f (f (f x)))"
  "(f ^^ 5) x = f (f (f (f (f x))))"
  "(f ^^ 6) x = f (f (f (f (f (f x)))))"
  by (simp_all add: eval_nat_numeral)

lemmas date_eval = week_start_end_for_date_def date_sub_days_def date_add_days_def
  funpow_unroll prev_day_def next_day_def monthrange_days_def isleap_def
  weekday_def toordinal_def days_before_year_def days_before_month_def
  is_last_week_of_month_def date_le_def

section \<open>The loops of the calculator in closed form\<close>

lemma dict_set_fresh: "k \<notin> set (map fst d) \<Longrightarrow> dict_set d k v = d @ [(k, v)]"
  by (induction d) auto

lemma dict_set_present:
  "distinct (map fst d) \<Longrightarrow> map_of d k = Some p \<Longrightarrow>
   dict_set d k v = map (\<lambda>(n, q). if n = k then (n, v) else (n, q)) d"
proof (induction d)
  case Nil
  then show ?case by simp
next
  case (Cons a d)
  obtain n q where a: "a = (n, q)" by (cases a)
  show ?case
  proof (cases "n = k")
    case True
    then have "k \<notin> set (map fst d)" using Cons.prems(1) a by simp
    then have "map (\<lambda>(n, q). if n = k then (n, v) else (n, q)) d = d"
      by (induction d) auto
    then show ?thesis using True a by simp
  next
    case False
    then show ?thesis using Cons a by auto
  qed
qed

lemma first_pass_eq:
  assumes "distinct (map fst shares)"
    and "set (map fst shares) \<inter> set (map fst ip) = {}"
    and "set (map fst shares) \<inter> set (map fst oam) = {}"
  shows "first_pass nd adv shares (ip, oam, toa) =
     (ip @ map (payout_after_first_pass nd adv) shares,
      oam @ map (excess_entry nd adv) (filter (over_advanced nd adv) shares),
      toa + sum_list (map (\<lambda>m. - share_payout nd adv m) (filter (over_advanced nd adv) shares)))"
  using assms
proof (induction shares arbitrary: ip oam toa)
  case Nil
  then show ?case by simp
next
  case (Cons m shares)
  obtain name ratio where m: "m = (name, ratio)" by (cases m)
  have fresh: "name \<notin> set (map fst ip)" "name \<notin> set (map fst oam)"
    using Cons.prems m by auto
  have d: "distinct (map fst shares)" and nm: "name \<notin> set (map fst shares)"
    using Cons.prems m by auto
  show ?case
  proof (cases "over_advanced nd adv m")
    case True
    have step: "first_pass nd adv (m # shares) (ip, oam, toa) =
        first_pass nd adv shares (ip @ [(name, 0)], oam @ [(name, - share_payout nd adv m)],
          toa + - share_payout nd adv m)"
      using True fresh by (simp add: m over_advanced_def share_payout_def Let_def dict_set_fresh)
    have "first_pass nd adv shares (ip @ [(name, 0)], oam @ [(name, - share_payout nd adv m)],
          toa + - share_payout nd adv m) =
       ((ip @ [(name, 0)]) @ map (payout_after_first_pass nd adv) shares,
        (oam @ [(name, - share_payout nd adv m)]) @
           map (excess_entry nd adv) (filter (over_advanced nd adv) shares),
        (toa + - share_payout nd adv m) +
           sum_list (map (\<lambda>m. - share_payout nd adv m) (filter (over_advanced nd adv) shares)))"
      using Cons.prems nm d by (intro Cons.IH) auto
    then show ?thesis
      using True step by (simp add: payout_after_first_pass_def excess_entry_def m)
  next
    case False
    have step: "first_pass nd adv (m # shares) (ip, oam, toa) =
        first_pass nd adv shares (ip @ [(name, share_payout nd adv m)], oam, toa)"
      using False fresh by (simp add: m over_advanced_def share_payout_def Let_def dict_set_fresh)
    have "first_pass nd adv shares (ip @ [(name, share_payout nd adv m)], oam, toa) =
       ((ip @ [(name, share_payout nd adv m)]) @ map (payout_after_first_pass nd adv) shares,
        oam @ map (excess_entry nd adv) (filter (over_advanced nd adv) shares),
        toa + sum_list (map (\<lambda>m. - share_payout nd adv m) (filter (over_advanced nd adv) shares)))"
      using Cons.prems nm d by (intro Cons.IH) auto
    then show ?thesis
      using False step by (simp add: payout_after_first_pass_def excess_entry_def m)
  qed
qed

lemma map_fst_dict_set_present:
  "distinct (map fst d) \<Longrightarrow> map_of d k = Some p \<Longrightarrow> map fst (dict_set d k v) = map fst d"
  by (simp add: dict_set_present) (induction d, auto)

lemma redistribute_loop_eq:
  assumes "distinct (map fst ip)" and "distinct names" and "set names \<subseteq> set (map fst ip)"
    and "\<And>n. n \<in> set names \<Longrightarrow> \<not> dict_has oam n \<Longrightarrow> V \<noteq> 0 \<and> map_of sh n \<noteq> None"
  shows "redistribute_loop sh oam toa V names ip =
     Inr (map (\<lambda>(n, p). if n \<in> set names \<and> \<not> dict_has oam n
                          then (n, p + quant (toa * (the (map_of sh n) / V))) else (n, p)) ip)"
  using assms
proof (induction names arbitrary: ip)
  case Nil
  then show ?case by simp
next
  case (Cons name names)
  show ?case
  proof (cases "dict_has oam name")
    case True
    have "redistribute_loop sh oam toa V (name # names) ip =
          redistribute_loop sh oam toa V names ip"
      using True by simp
    also have "\<dots> = Inr (map (\<lambda>(n, p). if n \<in> set names \<and> \<not> dict_has oam n
                          then (n, p + quant (toa * (the (map_of sh n) / V))) else (n, p)) ip)"
      using Cons.prems by (intro Cons.IH) auto
    also have "\<dots> = Inr (map (\<lambda>(n, p). if n \<in> set (name # names) \<and> \<not> dict_has oam n
                          then (n, p + quant (toa * (the (map_of sh n) / V))) else (n, p)) ip)"
      using True by (auto intro!: map_cong)
    finally show ?thesis .
  next
    case False
    from Cons.prems(4)[of name] False obtain r where V: "V \<noteq> 0" and r: "map_of sh name = Some r"
      by auto
    from Cons.prems(3) obtain p where p: "map_of ip name = Some p"
      by (cases "map_of ip name") (auto simp: map_of_eq_None_iff)
    define a where "a = quant (toa * (r / V))"
    define ip' where "ip' = dict_set ip name (p + a)"
    have ip'_eq: "ip' = map (\<lambda>(n, q). if n = name then (n, p + a) else (n, q)) ip"
      unfolding ip'_def using Cons.prems(1) p by (rule dict_set_present)
    have keys: "map fst ip' = map fst ip"
      unfolding ip'_def using Cons.prems(1) p by (rule map_fst_dict_set_present)
    have "redistribute_loop sh oam toa V (name # names) ip =
          redistribute_loop sh oam toa V names ip'"
      using False V r p by (simp add: decimal_div_def a_def ip'_def)
    also have "\<dots> = Inr (map (\<lambda>(n, p). if n \<in> set names \<and> \<not> dict_has oam n
                          then (n, p + quant (toa * (the (map_of sh n) / V))) else (n, p)) ip')"
      using Cons.prems keys by (intro Cons.IH) auto
    also have "\<dots> = Inr (map (\<lambda>(n, p). if n \<in> set (name # names) \<and> \<not> dict_has oam n
                          then (n, p + quant (toa * (the (map_of sh n) / V))) else (n, p)) ip)"
    proof -
      have "name \<notin> set names" using Cons.prems(2) by simp
      moreover have "\<And>q. (name, q) \<in> set ip \<Longrightarrow> q = p"
        using Cons.prems(1) p by (metis map_of_is_SomeI option.inject)
      ultimately show ?thesis
        unfolding ip'_eq using False r by (auto simp: a_def intro!: map_cong)
    qed
    finally show ?thesis .
  qed
qed

lemma valid_share_total_loop_eq:
  assumes "distinct (map fst shares)" and "set xs \<subseteq> set shares"
  shows "valid_share_total_loop shares oam (map fst xs) acc =
     Inr (acc + sum_list (map snd (filter (\<lambda>m. \<not> dict_has oam (fst m)) xs)))"
  using assms(2)
proof (induction xs arbitrary: acc)
  case Nil
  then show ?case by simp
next
  case (Cons m xs)
  obtain name ratio where m: "m = (name, ratio)" by (cases m)
  have "map_of shares name = Some ratio"
    using Cons.prems m assms(1) by (auto intro: map_of_is_SomeI)
  then show ?case using Cons m by (simp add: add.assoc)
qed

lemma final_payouts_loop_eq:
  assumes "distinct (map fst ip)" and "set (map fst ip) \<inter> set (map fst fp) = {}"
  shows "final_payouts_loop sub sal ip fp =
     fp @ map (\<lambda>(n, p). (n, if n = ''Felix'' \<and> \<not> sub then p + sal else p)) ip"
  using assms
proof (induction ip arbitrary: fp)
  case Nil
  then show ?case by simp
next
  case (Cons m ip)
  obtain name payout where m: "m = (name, payout)" by (cases m)
  have fresh: "name \<notin> set (map fst fp)" using Cons.prems m by auto
  have rest: "distinct (map fst ip)" "name \<notin> set (map fst ip)"
    "set (map fst ip) \<inter> set (map fst fp) = {}"
    using Cons.prems m by auto
  show ?case
  proof (cases "name = ''Felix'' \<and> \<not> sub")
    case True
    have "final_payouts_loop sub sal (m # ip) fp =
          final_payouts_loop sub sal ip (fp @ [(name, payout + sal)])"
      using True fresh by (simp add: m dict_set_fresh)
    also have "\<dots> = (fp @ [(name, payout + sal)]) @
        map (\<lambda>(n, p). (n, if n = ''Felix'' \<and> \<not> sub then p + sal else p)) ip"
      using rest by (intro Cons.IH) auto
    finally show ?thesis using True by (simp add: m)
  next
    case False
    have "final_payouts_loop sub sal (m # ip) fp =
          final_payouts_loop sub sal ip (fp @ [(name, payout)])"
      using False fresh by (auto simp: m dict_set_fresh)
    also have "\<dots> = (fp @ [(name, payout)]) @
        map (\<lambda>(n, p). (n, if n = ''Felix'' \<and> \<not> sub then p + sal else p)) ip"
      using rest by (intro Cons.IH) auto
    finally show ?thesis using False by (auto simp: m)
  qed
qed

lemma gross_shares_loop_eq:
  assumes "distinct (map fst shares)" and "set (map fst shares) \<inter> set (map fst g) = {}"
  shows "gross_shares_loop nd shares g = g @ map (\<lambda>(n, r). (n, quant (nd * r))) shares"
  using assms
proof (induction shares arbitrary: g)
  case Nil
  then show ?case by simp
next
  case (Cons m shares)
  obtain name ratio where m: "m = (name, ratio)" by (cases m)
  have fresh: "name \<notin> set (map fst g)" using Cons.prems m by auto
  have rest: "distinct (map fst shares)" "name \<notin> set (map fst shares)"
    "set (map fst shares) \<inter> set (map fst g) = {}"
    using Cons.prems m by auto
  show ?case
    using fresh rest by (simp add: m dict_set_fresh Cons.IH)
qed

lemma distinct_fst_eq:
  "distinct (map fst xs) \<Longrightarrow> a \<in> set xs \<Longrightarrow> b \<in> set xs \<Longrightarrow> fst a = fst b \<Longrightarrow> a = b"
  by (cases a, cases b) (auto dest: eq_key_imp_eq_value)

lemma sum_list_snd_pos:
  "list_all (\<lambda>m. (0::rat) < snd m) xs \<Longrightarrow> xs \<noteq> [] \<Longrightarrow> 0 < sum_list (map snd xs)"
proof (induction xs)
  case Nil then show ?case by simp
next
  case (Cons x xs)
  then show ?case by (cases "xs = []") (auto intro: add_pos_pos)
qed

lemma first_pass_init:
  assumes "distinct (map fst shares)"
  shows "first_pass nd adv shares ([], [], 0) =
     (map (payout_after_first_pass nd adv) shares,
      map (excess_entry nd adv) (filter (over_advanced nd adv) shares),
      total_excess nd adv shares)"
  using first_pass_eq [OF assms, of "[]" "[]" nd adv 0] by (simp add: total_excess_def)

lemma map_fst_payout_after_first_pass:
  "map fst (map (payout_after_first_pass nd adv) shares) = map fst shares"
  by (simp add: payout_after_first_pass_def comp_def)

lemma dict_has_excess:
  assumes "distinct (map fst shares)" and "m \<in> set shares"
  shows "dict_has (map (excess_entry nd adv) (filter (over_advanced nd adv) shares)) (fst m) =
         over_advanced nd adv m"
proof -
  have "fst m \<in> fst ` set (filter (over_advanced nd adv) shares) \<longleftrightarrow> over_advanced nd adv m"
  proof
    assume "fst m \<in> fst ` set (filter (over_advanced nd adv) shares)"
    then obtain m' where m': "m' \<in> set shares" "over_advanced nd adv m'" "fst m' = fst m"
      by auto
    then have "m' = m" using assms by (meson distinct_fst_eq)
    then show "over_advanced nd adv m" using m' by simp
  next
    assume "over_advanced nd adv m"
    then show "fst m \<in> fst ` set (filter (over_advanced nd adv) shares)"
      using assms(2) by auto
  qed
  moreover have "dict_has (map (excess_entry nd adv) (filter (over_advanced nd adv) shares)) (fst m)
     \<longleftrightarrow> fst m \<in> fst ` set (filter (over_advanced nd adv) shares)"
    by (simp add: dict_has_def map_of_eq_None_iff excess_entry_def image_image)
  ultimately show ?thesis by simp
qed


lemma normal_share_total_pos:
  assumes "list_all (\<lambda>m. 0 < snd m) shares" and "m \<in> set shares" and "\<not> over_advanced nd adv m"
  shows "0 < normal_share_total nd adv shares"
proof -
  have "list_all (\<lambda>m. 0 < snd m) (filter (\<lambda>m. \<not> over_advanced nd adv m) shares)"
    using assms(1) by (auto simp: list_all_iff)
  moreover have "filter (\<lambda>m. \<not> over_advanced nd adv m) shares \<noteq> []"
    using assms(2,3) by (auto simp: filter_empty_conv)
  ultimately show ?thesis unfolding normal_share_total_def by (rule sum_list_snd_pos)
qed

lemma redistribute_eq:
  assumes d: "distinct (map fst shares)"
    and nz: "\<And>m. m \<in> set shares \<Longrightarrow> \<not> over_advanced nd adv m \<Longrightarrow>
               normal_share_total nd adv shares \<noteq> 0"
  shows "redistribute shares
           (map (excess_entry nd adv) (filter (over_advanced nd adv) shares))
           (total_excess nd adv shares)
           (map (payout_after_first_pass nd adv) shares) =
         Inr (map (\<lambda>m. (fst m, provisional_payout nd adv shares m)) shares)"
proof (cases "0 < total_excess nd adv shares")
  case False
  then show ?thesis
    by (simp add: redistribute_def provisional_payout_def payout_after_first_pass_def)
next
  case True
  define oam where "oam = map (excess_entry nd adv) (filter (over_advanced nd adv) shares)"
  define ip where "ip = map (payout_after_first_pass nd adv) shares"
  define V where "V = normal_share_total nd adv shares"
  define T where "T = total_excess nd adv shares"
  have has: "\<And>m. m \<in> set shares \<Longrightarrow> dict_has oam (fst m) = over_advanced nd adv m"
    unfolding oam_def using d by (rule dict_has_excess)
  have "filter (\<lambda>m. \<not> dict_has oam (fst m)) shares = filter (\<lambda>m. \<not> over_advanced nd adv m) shares"
    using has by (auto intro: filter_cong)
  then have vst: "valid_share_total_loop shares oam (dict_keys shares) 0 = Inr V"
    using valid_share_total_loop_eq [OF d, of shares oam 0]
    by (simp add: dict_keys_def V_def normal_share_total_def)
  have keys: "map fst ip = map fst shares"
    unfolding ip_def by (rule map_fst_payout_after_first_pass)
  have look: "\<And>m. m \<in> set shares \<Longrightarrow> map_of shares (fst m) = Some (snd m)"
    using d by (simp add: map_of_is_SomeI)
  have loop: "redistribute_loop shares oam T V (map fst shares) ip =
     Inr (map (\<lambda>(n, p). if n \<in> set (map fst shares) \<and> \<not> dict_has oam n
                          then (n, p + quant (T * (the (map_of shares n) / V))) else (n, p)) ip)"
  proof (rule redistribute_loop_eq)
    show "distinct (map fst ip)" using keys d by simp
    show "distinct (map fst shares)" by (rule d)
    show "set (map fst shares) \<subseteq> set (map fst ip)" using keys by simp
    fix n assume n: "n \<in> set (map fst shares)" "\<not> dict_has oam n"
    then obtain m where m: "m \<in> set shares" "fst m = n" by auto
    have "\<not> over_advanced nd adv m" using has [OF m(1)] n(2) m(2) by simp
    then have "V \<noteq> 0" using nz [OF m(1)] unfolding V_def by simp
    moreover have "map_of shares n \<noteq> None" using look [OF m(1)] m(2) by simp
    ultimately show "V \<noteq> 0 \<and> map_of shares n \<noteq> None" by simp
  qed
  have "map (\<lambda>(n, p). if n \<in> set (map fst shares) \<and> \<not> dict_has oam n
                          then (n, p + quant (T * (the (map_of shares n) / V))) else (n, p)) ip =
        map (\<lambda>m. (fst m, provisional_payout nd adv shares m)) shares"
    unfolding ip_def map_map
  proof (rule map_cong [OF refl])
    fix m assume m: "m \<in> set shares"
    show "((\<lambda>(n, p). if n \<in> set (map fst shares) \<and> \<not> dict_has oam n
                          then (n, p + quant (T * (the (map_of shares n) / V))) else (n, p)) \<circ>
           payout_after_first_pass nd adv) m = (fst m, provisional_payout nd adv shares m)"
      using m has [OF m] look [OF m] True
      by (auto simp: payout_after_first_pass_def provisional_payout_def T_def V_def)
  qed
  then show ?thesis
    using True vst loop keys
    by (simp add: redistribute_def dict_keys_def oam_def [symmetric] ip_def [symmetric]
        T_def [symmetric])
qed

lemma calc_eq:
  assumes d: "distinct (map fst (FIXED_SHARES cfg))"
    and nz: "\<And>m. m \<in> set (FIXED_SHARES cfg) \<Longrightarrow>
               \<not> over_advanced (net_distributable_of cfg ti te ws we sub) adv m \<Longrightarrow>
               normal_share_total (net_distributable_of cfg ti te ws we sub) adv (FIXED_SHARES cfg) \<noteq> 0"
  shows "calculate_settlement_values cfg ti te adv ws we sub =
     Inr \<lparr>income = quant ti, expenses = quant te, salary_total = salary_of cfg sub,
          debt = quant (quant ti * DEBT_PERCENT cfg),
          rent = (if is_last_week_of_month ws we then RENT cfg else 0),
          milk = (if is_last_week_of_month ws we then MILK_BILL cfg else 0),
          total_advances = quant (sum_list (map snd adv)),
          net_distributable = net_distributable_of cfg ti te ws we sub,
          gross_shares =
            map (\<lambda>(n, r). (n, quant (net_distributable_of cfg ti te ws we sub * r)))
              (FIXED_SHARES cfg),
          net_payouts =
            map (\<lambda>(n, p). (n, if n = ''Felix'' \<and> \<not> sub then p + salary_of cfg sub else p))
              (map (\<lambda>m. (fst m,
                     provisional_payout (net_distributable_of cfg ti te ws we sub) adv
                       (FIXED_SHARES cfg) m))
                 (FIXED_SHARES cfg)),
          week_start = ws, week_end = we, felix_substitute = sub\<rparr>"
proof -
  define nd where "nd = net_distributable_of cfg ti te ws we sub"
  define shares where "shares = FIXED_SHARES cfg"
  have nd_eq: "quant (max (quant ti - (quant te + salary_of cfg sub +
                  quant (quant ti * DEBT_PERCENT cfg) +
                  (if is_last_week_of_month ws we then RENT cfg else 0) +
                  (if is_last_week_of_month ws we then MILK_BILL cfg else 0))) 0) = nd"
    by (simp add: nd_def net_distributable_of_def)
  have fp: "first_pass nd adv shares ([], [], 0) =
     (map (payout_after_first_pass nd adv) shares,
      map (excess_entry nd adv) (filter (over_advanced nd adv) shares),
      total_excess nd adv shares)"
    using d unfolding shares_def by (rule first_pass_init)
  have re: "redistribute shares
           (map (excess_entry nd adv) (filter (over_advanced nd adv) shares))
           (total_excess nd adv shares)
           (map (payout_after_first_pass nd adv) shares) =
         Inr (map (\<lambda>m. (fst m, provisional_payout nd adv shares m)) shares)"
    using d nz unfolding shares_def nd_def by (rule redistribute_eq)
  have fin: "final_payouts_loop sub (salary_of cfg sub)
        (map (\<lambda>m. (fst m, provisional_payout nd adv shares m)) shares) [] =
      map (\<lambda>(n, p). (n, if n = ''Felix'' \<and> \<not> sub then p + salary_of cfg sub else p))
        (map (\<lambda>m. (fst m, provisional_payout nd adv shares m)) shares)"
    using d by (subst final_payouts_loop_eq) (simp_all add: comp_def shares_def)
  have gr: "gross_shares_loop nd shares [] = map (\<lambda>(n, r). (n, quant (nd * r))) shares"
    using d by (subst gross_shares_loop_eq) (simp_all add: shares_def)
  have sal: "(if \<not> sub then quant (FELIX_DAILY_SALARY cfg * 7) else 0) = salary_of cfg sub"
    by (simp add: salary_of_def)
  show ?thesis
    unfolding calculate_settlement_values_def Let_def sal nd_eq
      shares_def [symmetric] nd_def [symmetric]
    by (simp add: fp re fin gr)
qed

lemma valid_config_nz:
  assumes "valid_config cfg" and "m \<in> set (FIXED_SHARES cfg)" and "\<not> over_advanced nd adv m"
  shows "normal_share_total nd adv (FIXED_SHARES cfg) \<noteq> 0"
  using normal_share_total_pos [of "FIXED_SHARES cfg" m nd adv] assms
  by (simp add: valid_config_def)


section \<open>The settlement calculator\<close>

lemma valid_config_Config: "valid_config Config"
  by (simp add: valid_config_def Config_def)

lemma calc_spec_example:
  "calculate_settlement_values Config 100000 20000 [(''Bett'', 5000)]
     \<lparr>year = 2024, month = 1, day = 8\<rparr> \<lparr>year = 2024, month = 1, day = 14\<rparr> False =
   Inr \<lparr>income = 100000, expenses = 20000, salary_total = 7000, debt = 10000, rent = 0, milk = 0,
        total_advances = 5000, net_distributable = 63000,
        gross_shares = [(''Bett'', 48825), (''Felix'', 5418), (''Willy'', 8757)],
        net_payouts = [(''Bett'', 43825), (''Felix'', 12418), (''Willy'', 8757)],
        week_start = \<lparr>year = 2024, month = 1, day = 8\<rparr>,
        week_end = \<lparr>year = 2024, month = 1, day = 14\<rparr>,
        felix_substitute = False\<rparr>"
  by code_simp

lemma calc_negative_income:
  "calculate_settlement_values Config (- 100) 0 []
     \<lparr>year = 2024, month = 1, day = 8\<rparr> \<lparr>year = 2024, month = 1, day = 14\<rparr> False =
   Inr \<lparr>income = - 100, expenses = 0, salary_total = 7000, debt = - 10, rent = 0, milk = 0,
        total_advances = 0, net_distributable = 0,
        gross_shares = [(''Bett'', 0), (''Felix'', 0), (''Willy'', 0)],
        net_payouts = [(''Bett'', 0), (''Felix'', 7000), (''Willy'', 0)],
        week_start = \<lparr>year = 2024, month = 1, day = 8\<rparr>,
        week_end = \<lparr>year = 2024, month = 1, day = 14\<rparr>,
        felix_substitute = False\<rparr>"
  by code_simp

lemma calc_returns:
  assumes "valid_config cfg"
  shows "calculate_settlement_values cfg ti te adv ws we sub =
     Inr \<lparr>income = quant ti, expenses = quant te, salary_total = salary_of cfg sub,
          debt = quant (quant ti * DEBT_PERCENT cfg),
          rent = (if is_last_week_of_month ws we then RENT cfg else 0),
          milk = (if is_last_week_of_month ws we then MILK_BILL cfg else 0),
          total_advances = quant (sum_list (map snd adv)),
          net_distributable = net_distributable_of cfg ti te ws we sub,
          gross_shares =
            map (\<lambda>(n, r). (n, quant (net_distributable_of cfg ti te ws we sub * r)))
              (FIXED_SHARES cfg),
          net_payouts =
            map (\<lambda>(n, p). (n, if n = ''Felix'' \<and> \<not> sub then p + salary_of cfg sub else p))
              (map (\<lambda>m. (fst m,
                     provisional_payout (net_distributable_of cfg ti te ws we sub) adv
                       (FIXED_SHARES cfg) m))
                 (FIXED_SHARES cfg)),
          week_start = ws, week_end = we, felix_substitute = sub\<rparr>"
proof (rule calc_eq)
  show "distinct (map fst (FIXED_SHARES cfg))" using assms by (simp add: valid_config_def)
next
  fix m assume "m \<in> set (FIXED_SHARES cfg)"
    "\<not> over_advanced (net_distributable_of cfg ti te ws we sub) adv m"
  with assms show "normal_share_total (net_distributable_of cfg ti te ws we sub) adv
      (FIXED_SHARES cfg) \<noteq> 0"
    by (rule valid_config_nz)
qed

text \<open>
  C4. For a well-formed configuration the calculator returns, and the net distributable amount
  it returns is the quantization of the maximum of 0 and income minus expenses, salary, debt
  due, rent and milk, where the income and expenses are the quantized inputs and the debt due
  is the quantization of income times the debt percentage; it is never negative.
\<close>

theorem net_distributable_formula:
  assumes "valid_config cfg"
  shows "\<exists>res. calculate_settlement_values cfg ti te adv ws we sub = Inr res \<and>
     income res = quant ti \<and> expenses res = quant te \<and>
     debt res = quant (income res * DEBT_PERCENT cfg) \<and>
     net_distributable res =
       quant (max 0 (income res -
                     (expenses res + salary_total res + debt res + rent res + milk res))) \<and>
     0 \<le> net_distributable res"
proof -
  have "0 \<le> net_distributable_of cfg ti te ws we sub"
    unfolding net_distributable_of_def by (rule quant_nonneg) simp
  then show ?thesis
    unfolding calc_returns [OF assms]
    by (simp add: net_distributable_of_def max.commute)
qed

theorem net_distributable_formula_witness:
  "valid_config Config \<and>
   (\<exists>res. calculate_settlement_values Config 100000 20000 [(''Bett'', 5000)]
            \<lparr>year = 2024, month = 1, day = 8\<rparr> \<lparr>year = 2024, month = 1, day = 14\<rparr> False =
          Inr res \<and>
      income res = 100000 \<and> expenses res = 20000 \<and> debt res = 10000 \<and>
      salary_total res = 7000 \<and> rent res = 0 \<and> milk res = 0 \<and>
      net_distributable res = 63000 \<and>
      net_distributable res =
        quant (max 0 (income res -
                      (expenses res + salary_total res + debt res + rent res + milk res)))) \<and>
   (\<exists>res. calculate_settlement_values Config (- 100) 0 []
            \<lparr>year = 2024, month = 1, day = 8\<rparr> \<lparr>year = 2024, month = 1, day = 14\<rparr> False =
          Inr res \<and>
      income res = - 100 \<and> debt res = - 10 \<and> salary_total res = 7000 \<and>
      net_distributable res = 0 \<and>
      net_distributable res =
        quant (max 0 (income res -
                      (expenses res + salary_total res + debt res + rent res + milk res))))"
  using net_distributable_formula [OF valid_config_Config, of 100000 20000 "[(''Bett'', 5000)]"
      "\<lparr>year = 2024, month = 1, day = 8\<rparr>" "\<lparr>year = 2024, month = 1, day = 14\<rparr>" False]
    net_distributable_formula [OF valid_config_Config, of "- 100" 0 "[]"
      "\<lparr>year = 2024, month = 1, day = 8\<rparr>" "\<lparr>year = 2024, month = 1, day = 14\<rparr>" False]
    valid_config_Config
  unfolding calc_spec_example calc_negative_income by simp

lemma phases_of_calc:
  assumes "valid_config cfg"
  shows "first_pass nd adv (FIXED_SHARES cfg) ([], [], 0) =
           (map (payout_after_first_pass nd adv) (FIXED_SHARES cfg),
            map (excess_entry nd adv) (filter (over_advanced nd adv) (FIXED_SHARES cfg)),
            total_excess nd adv (FIXED_SHARES cfg))"
    and "redistribute (FIXED_SHARES cfg)
           (map (excess_entry nd adv) (filter (over_advanced nd adv) (FIXED_SHARES cfg)))
           (total_excess nd adv (FIXED_SHARES cfg))
           (map (payout_after_first_pass nd adv) (FIXED_SHARES cfg)) =
         Inr (map (\<lambda>m. (fst m, provisional_payout nd adv (FIXED_SHARES cfg) m)) (FIXED_SHARES cfg))"
proof -
  have d: "distinct (map fst (FIXED_SHARES cfg))" using assms(1) by (simp add: valid_config_def)
  show "first_pass nd adv (FIXED_SHARES cfg) ([], [], 0) =
           (map (payout_after_first_pass nd adv) (FIXED_SHARES cfg),
            map (excess_entry nd adv) (filter (over_advanced nd adv) (FIXED_SHARES cfg)),
            total_excess nd adv (FIXED_SHARES cfg))"
    using d by (rule first_pass_init)
  show "redistribute (FIXED_SHARES cfg)
           (map (excess_entry nd adv) (filter (over_advanced nd adv) (FIXED_SHARES cfg)))
           (total_excess nd adv (FIXED_SHARES cfg))
           (map (payout_after_first_pass nd adv) (FIXED_SHARES cfg)) =
         Inr (map (\<lambda>m. (fst m, provisional_payout nd adv (FIXED_SHARES cfg) m)) (FIXED_SHARES cfg))"
    using d valid_config_nz [OF assms(1)] by (rule redistribute_eq)
qed

text \<open>
  C3. For a well-formed configuration the calculator returns; the salary deduction is 0 when
  the substitute flag is set and the quantized daily rate times 7 otherwise; the final payout
  of the member named Felix is the payout after redistribution plus that weekly salary when
  the flag is not set and the payout after redistribution alone when it is set; every other
  member's final payout is the payout after redistribution.
\<close>

theorem operator_salary:
  assumes "valid_config cfg"
  shows "\<exists>res ip oam toa payouts.
     calculate_settlement_values cfg ti te adv ws we sub = Inr res \<and>
     first_pass (net_distributable res) adv (FIXED_SHARES cfg) ([], [], 0) = (ip, oam, toa) \<and>
     redistribute (FIXED_SHARES cfg) oam toa ip = Inr payouts \<and>
     map fst payouts = map fst (FIXED_SHARES cfg) \<and>
     salary_total res = (if sub then 0 else quant (FELIX_DAILY_SALARY cfg * 7)) \<and>
     net_payouts res =
       map (\<lambda>(n, p). (n, if n = ''Felix''
                          then (if sub then p else p + quant (FELIX_DAILY_SALARY cfg * 7))
                          else p)) payouts"
proof -
  define nd where "nd = net_distributable_of cfg ti te ws we sub"
  define payouts where
    "payouts = map (\<lambda>m. (fst m, provisional_payout nd adv (FIXED_SHARES cfg) m)) (FIXED_SHARES cfg)"
  have keys: "map fst payouts = map fst (FIXED_SHARES cfg)"
    by (simp add: payouts_def comp_def)
  have np: "map (\<lambda>(n, p). (n, if n = ''Felix'' \<and> \<not> sub then p + salary_of cfg sub else p)) payouts =
      map (\<lambda>(n, p). (n, if n = ''Felix''
                          then (if sub then p else p + quant (FELIX_DAILY_SALARY cfg * 7))
                          else p)) payouts"
    by (rule map_cong) (auto simp: salary_of_def)
  show ?thesis
    unfolding calc_returns [OF assms]
    using phases_of_calc [OF assms, of nd adv] keys np
    by (auto simp: nd_def payouts_def salary_of_def)
qed

lemma map_of_keyed_map:
  assumes "distinct (map fst xs)" and "m \<in> set xs"
  shows "map_of (map (\<lambda>m. (fst m, f m)) xs) (fst m) = Some (f m)"
proof (rule map_of_is_SomeI)
  show "distinct (map fst (map (\<lambda>m. (fst m, f m)) xs))" using assms(1) by (simp add: comp_def)
  show "(fst m, f m) \<in> set (map (\<lambda>m. (fst m, f m)) xs)" using assms(2) by auto
qed

lemma net_payouts_keyed:
  "map (\<lambda>(n, p). (n, if n = ''Felix'' \<and> \<not> sub then p + s else p))
     (map (\<lambda>m. (fst m, f m)) xs) =
   map (\<lambda>m. (fst m, if fst m = ''Felix'' \<and> \<not> sub then f m + s else f m)) xs"
  by simp

lemma gross_shares_keyed:
  "map (\<lambda>(n, r). (n, quant (nd * r))) xs = map (\<lambda>m. (fst m, quant (nd * snd m))) xs"
  by (rule map_cong) auto

text \<open>
  C9. With the substitute flag not set, when the gross share of the member named Felix is
  below the (quantized) advance, the final payout of Felix is exactly the weekly salary.
\<close>

theorem operator_over_advanced_gets_salary:
  assumes "valid_config cfg"
  shows "\<exists>res. calculate_settlement_values cfg ti te adv ws we False = Inr res \<and>
     (\<forall>g. map_of (gross_shares res) ''Felix'' = Some g \<and>
          g < quant (dict_get adv ''Felix'' 0) \<longrightarrow>
          map_of (net_payouts res) ''Felix'' = Some (quant (FELIX_DAILY_SALARY cfg * 7)))"
proof -
  define nd where "nd = net_distributable_of cfg ti te ws we False"
  define shares where "shares = FIXED_SHARES cfg"
  have d: "distinct (map fst shares)" using assms by (simp add: valid_config_def shares_def)
  have "map_of (map (\<lambda>m. (fst m, if fst m = ''Felix'' \<and> \<not> False
                        then provisional_payout nd adv shares m + salary_of cfg False
                        else provisional_payout nd adv shares m)) shares) ''Felix'' =
        Some (quant (FELIX_DAILY_SALARY cfg * 7))"
    if g: "map_of (map (\<lambda>m. (fst m, quant (nd * snd m))) shares) ''Felix'' = Some g"
      "g < quant (dict_get adv ''Felix'' 0)" for g
  proof -
    from g(1) obtain m where m: "m \<in> set shares" "fst m = ''Felix''" "g = quant (nd * snd m)"
      by (auto dest!: map_of_SomeD)
    have "over_advanced nd adv m"
      using g(2) m by (simp add: over_advanced_def share_payout_def)
    then have "provisional_payout nd adv shares m = 0" by (simp add: provisional_payout_def)
    then show ?thesis
      using map_of_keyed_map [OF d m(1), of "\<lambda>m. if fst m = ''Felix'' \<and> \<not> False
                        then provisional_payout nd adv shares m + salary_of cfg False
                        else provisional_payout nd adv shares m"] m(2)
      by (simp add: salary_of_def)
  qed
  note key = this [unfolded nd_def shares_def]
  show ?thesis
    unfolding calc_returns [OF assms] net_payouts_keyed gross_shares_keyed
    using key by auto
qed

lemma calc_operator_over_advanced:
  "calculate_settlement_values Config 100000 20000 [(''Felix'', 6000)]
     \<lparr>year = 2024, month = 1, day = 8\<rparr> \<lparr>year = 2024, month = 1, day = 14\<rparr> False =
   Inr \<lparr>income = 100000, expenses = 20000, salary_total = 7000, debt = 10000, rent = 0, milk = 0,
        total_advances = 6000, net_distributable = 63000,
        gross_shares = [(''Bett'', 48825), (''Felix'', 5418), (''Willy'', 8757)],
        net_payouts = [(''Bett'', 4931849 / 100), (''Felix'', 7000), (''Willy'', 884551 / 100)],
        week_start = \<lparr>year = 2024, month = 1, day = 8\<rparr>,
        week_end = \<lparr>year = 2024, month = 1, day = 14\<rparr>,
        felix_substitute = False\<rparr>"
  by code_simp

theorem operator_over_advanced_gets_salary_witness:
  "valid_config Config \<and>
   (\<exists>res. calculate_settlement_values Config 100000 20000 [(''Felix'', 6000)]
            \<lparr>year = 2024, month = 1, day = 8\<rparr> \<lparr>year = 2024, month = 1, day = 14\<rparr> False =
          Inr res \<and>
      map_of (gross_shares res) ''Felix'' = Some 5418 \<and>
      5418 < quant (dict_get [(''Felix'', 6000)] ''Felix'' 0) \<and>
      map_of (net_payouts res) ''Felix'' = Some (quant (FELIX_DAILY_SALARY Config * 7)))"
proof -
  have q: "quant (dict_get [(''Felix'', 6000)] ''Felix'' 0) = 6000" by code_simp
  show ?thesis
    using operator_over_advanced_gets_salary [OF valid_config_Config, of 100000 20000
        "[(''Felix'', 6000)]" "\<lparr>year = 2024, month = 1, day = 8\<rparr>"
        "\<lparr>year = 2024, month = 1, day = 14\<rparr>"]
      valid_config_Config
    unfolding calc_operator_over_advanced q by simp
qed

lemma calc_spec_example_substitute:
  "calculate_settlement_values Config 100000 20000 [(''Bett'', 5000)]
     \<lparr>year = 2024, month = 1, day = 8\<rparr> \<lparr>year = 2024, month = 1, day = 14\<rparr> True =
   Inr \<lparr>income = 100000, expenses = 20000, salary_total = 0, debt = 10000, rent = 0, milk = 0,
        total_advances = 5000, net_distributable = 70000,
        gross_shares = [(''Bett'', 54250), (''Felix'', 6020), (''Willy'', 9730)],
        net_payouts = [(''Bett'', 49250), (''Felix'', 6020), (''Willy'', 9730)],
        week_start = \<lparr>year = 2024, month = 1, day = 8\<rparr>,
        week_end = \<lparr>year = 2024, month = 1, day = 14\<rparr>,
        felix_substitute = True\<rparr>"
  by code_simp

lemma first_pass_spec_example:
  "first_pass 63000 [(''Bett'', 5000)] (FIXED_SHARES Config) ([], [], 0) =
     ([(''Bett'', 43825), (''Felix'', 5418), (''Willy'', 8757)], [], 0)"
  "first_pass 70000 [(''Bett'', 5000)] (FIXED_SHARES Config) ([], [], 0) =
     ([(''Bett'', 49250), (''Felix'', 6020), (''Willy'', 9730)], [], 0)"
  by code_simp+

lemma redistribute_nothing: "redistribute shares oam 0 ip = Inr ip"
  by (simp add: redistribute_def)

theorem operator_salary_witness:
  "valid_config Config \<and>
   (\<exists>res payouts.
      calculate_settlement_values Config 100000 20000 [(''Bett'', 5000)]
        \<lparr>year = 2024, month = 1, day = 8\<rparr> \<lparr>year = 2024, month = 1, day = 14\<rparr> False = Inr res \<and>
      redistribute (FIXED_SHARES Config) [] 0
        [(''Bett'', 43825), (''Felix'', 5418), (''Willy'', 8757)] = Inr payouts \<and>
      payouts = [(''Bett'', 43825), (''Felix'', 5418), (''Willy'', 8757)] \<and>
      salary_total res = 7000 \<and>
      net_payouts res = [(''Bett'', 43825), (''Felix'', 12418), (''Willy'', 8757)]) \<and>
   (\<exists>res payouts.
      calculate_settlement_values Config 100000 20000 [(''Bett'', 5000)]
        \<lparr>year = 2024, month = 1, day = 8\<rparr> \<lparr>year = 2024, month = 1, day = 14\<rparr> True = Inr res \<and>
      redistribute (FIXED_SHARES Config) [] 0
        [(''Bett'', 49250), (''Felix'', 6020), (''Willy'', 9730)] = Inr payouts \<and>
      payouts = [(''Bett'', 49250), (''Felix'', 6020), (''Willy'', 9730)] \<and>
      salary_total res = 0 \<and>
      net_payouts res = [(''Bett'', 49250), (''Felix'', 6020), (''Willy'', 9730)])"
  using operator_salary [OF valid_config_Config, of 100000 20000 "[(''Bett'', 5000)]"
      "\<lparr>year = 2024, month = 1, day = 8\<rparr>" "\<lparr>year = 2024, month = 1, day = 14\<rparr>" False]
    operator_salary [OF valid_config_Config, of 100000 20000 "[(''Bett'', 5000)]"
      "\<lparr>year = 2024, month = 1, day = 8\<rparr>" "\<lparr>year = 2024, month = 1, day = 14\<rparr>" True]
    valid_config_Config
  unfolding calc_spec_example calc_spec_example_substitute
  by (simp add: first_pass_spec_example redistribute_nothing)

text \<open>
  C10. When every member of the share table is over-advanced, the calculator returns (for any
  share table without repeated names, whatever the ratios): every payout of the first pass is
  0, the total over-advance is the sum of the excesses (positive unless the table is empty),
  the redistribution loop changes nothing whatever the share total it is given, so that the
  division is never evaluated, and the final payouts are 0 except for the salary of Felix.
\<close>

theorem all_over_advanced:
  assumes "distinct (map fst (FIXED_SHARES cfg))"
    and "list_all (over_advanced (net_distributable_of cfg ti te ws we sub) adv) (FIXED_SHARES cfg)"
  shows "\<exists>res ip oam toa.
     calculate_settlement_values cfg ti te adv ws we sub = Inr res \<and>
     net_distributable res = net_distributable_of cfg ti te ws we sub \<and>
     first_pass (net_distributable res) adv (FIXED_SHARES cfg) ([], [], 0) = (ip, oam, toa) \<and>
     ip = map (\<lambda>m. (fst m, 0)) (FIXED_SHARES cfg) \<and>
     toa = sum_list (map (\<lambda>m. - share_payout (net_distributable res) adv m) (FIXED_SHARES cfg)) \<and>
     (0 < toa \<or> FIXED_SHARES cfg = []) \<and>
     (\<forall>V. redistribute_loop (FIXED_SHARES cfg) oam toa V (dict_keys ip) ip = Inr ip) \<and>
     redistribute (FIXED_SHARES cfg) oam toa ip = Inr ip \<and>
     net_payouts res =
       map (\<lambda>m. (fst m, if fst m = ''Felix'' \<and> \<not> sub
                         then quant (FELIX_DAILY_SALARY cfg * 7) else 0)) (FIXED_SHARES cfg)"
proof -
  define nd where "nd = net_distributable_of cfg ti te ws we sub"
  define shares where "shares = FIXED_SHARES cfg"
  define ip where "ip = map (\<lambda>m. (fst m, 0::rat)) shares"
  define oam where "oam = map (excess_entry nd adv) shares"
  define toa where "toa = sum_list (map (\<lambda>m. - share_payout nd adv m) shares)"
  have d: "distinct (map fst shares)" using assms(1) by (simp add: shares_def)
  have over: "\<And>m. m \<in> set shares \<Longrightarrow> over_advanced nd adv m"
    using assms(2) by (simp add: list_all_iff nd_def shares_def)
  have filt: "filter (over_advanced nd adv) shares = shares" using over by simp
  have prov: "\<And>m. m \<in> set shares \<Longrightarrow> provisional_payout nd adv shares m = 0"
    using over by (simp add: provisional_payout_def)
  have pafp: "map (payout_after_first_pass nd adv) shares = ip"
    unfolding ip_def using over by (auto simp: payout_after_first_pass_def)
  have fp: "first_pass nd adv shares ([], [], 0) = (ip, oam, toa)"
    using first_pass_init [OF d, of nd adv]
    by (simp add: filt pafp oam_def toa_def total_excess_def)
  have calc: "calculate_settlement_values cfg ti te adv ws we sub =
     Inr \<lparr>income = quant ti, expenses = quant te, salary_total = salary_of cfg sub,
          debt = quant (quant ti * DEBT_PERCENT cfg),
          rent = (if is_last_week_of_month ws we then RENT cfg else 0),
          milk = (if is_last_week_of_month ws we then MILK_BILL cfg else 0),
          total_advances = quant (sum_list (map snd adv)),
          net_distributable = nd,
          gross_shares = map (\<lambda>(n, r). (n, quant (nd * r))) shares,
          net_payouts =
            map (\<lambda>(n, p). (n, if n = ''Felix'' \<and> \<not> sub then p + salary_of cfg sub else p))
              (map (\<lambda>m. (fst m, provisional_payout nd adv shares m)) shares),
          week_start = ws, week_end = we, felix_substitute = sub\<rparr>"
    unfolding nd_def shares_def
    using assms(1) over unfolding nd_def shares_def by (intro calc_eq) auto
  have np: "map (\<lambda>(n, p). (n, if n = ''Felix'' \<and> \<not> sub then p + salary_of cfg sub else p))
              (map (\<lambda>m. (fst m, provisional_payout nd adv shares m)) shares) =
       map (\<lambda>m. (fst m, if fst m = ''Felix'' \<and> \<not> sub
                         then quant (FELIX_DAILY_SALARY cfg * 7) else 0)) shares"
    unfolding net_payouts_keyed using prov by (auto simp: salary_of_def)
  have has: "\<And>n. n \<in> set (map fst shares) \<Longrightarrow> dict_has oam n"
    by (auto simp: oam_def dict_has_def map_of_eq_None_iff excess_entry_def image_image)
  have loop: "redistribute_loop shares oam toa V (dict_keys ip) ip = Inr ip" for V
  proof -
    have keys: "map fst ip = map fst shares" by (simp add: ip_def comp_def)
    have "redistribute_loop shares oam toa V (map fst shares) ip =
       Inr (map (\<lambda>(n, p). if n \<in> set (map fst shares) \<and> \<not> dict_has oam n
                 then (n, p + quant (toa * (the (map_of shares n) / V))) else (n, p)) ip)"
      using d keys has by (intro redistribute_loop_eq) auto
    also have "map (\<lambda>(n, p). if n \<in> set (map fst shares) \<and> \<not> dict_has oam n
                 then (n, p + quant (toa * (the (map_of shares n) / V))) else (n, p)) ip = ip"
    proof (rule map_idI)
      fix x assume "x \<in> set ip"
      then have "fst x \<in> set (map fst shares)" using keys by (metis image_eqI set_map)
      then have "dict_has oam (fst x)" by (rule has)
      then show "(case x of (n, p) \<Rightarrow> if n \<in> set (map fst shares) \<and> \<not> dict_has oam n
                 then (n, p + quant (toa * (the (map_of shares n) / V))) else (n, p)) = x"
        by (cases x) simp
    qed
    finally show ?thesis by (simp add: dict_keys_def keys)
  qed
  have vst: "valid_share_total_loop shares oam (dict_keys shares) 0 = Inr 0"
  proof -
    have "filter (\<lambda>m. \<not> dict_has oam (fst m)) shares = []"
      using has by (auto simp: filter_empty_conv)
    then show ?thesis
      using valid_share_total_loop_eq [OF d, of shares oam 0] by (simp add: dict_keys_def)
  qed
  have re: "redistribute shares oam toa ip = Inr ip"
    by (simp add: redistribute_def vst loop)
  have pos: "0 < toa \<or> shares = []"
  proof (cases "shares = []")
    case False
    have "list_all (\<lambda>m. 0 < snd m) (map (\<lambda>m. (fst m, - share_payout nd adv m)) shares)"
      using over by (auto simp: list_all_iff over_advanced_def)
    then have "0 < sum_list (map snd (map (\<lambda>m. (fst m, - share_payout nd adv m)) shares))"
      using False by (intro sum_list_snd_pos) auto
    then show ?thesis by (simp add: toa_def comp_def)
  qed simp
  show ?thesis
    unfolding calc
    using fp re loop pos np
    by (simp add: nd_def [symmetric] shares_def [symmetric] ip_def [symmetric] toa_def [symmetric])
qed

lemma all_over_advanced_example:
  "list_all (over_advanced (net_distributable_of Config 0 0
       \<lparr>year = 2024, month = 1, day = 8\<rparr> \<lparr>year = 2024, month = 1, day = 14\<rparr> False)
     [(''Bett'', 100), (''Felix'', 100), (''Willy'', 100)]) (FIXED_SHARES Config)"
  "net_distributable_of Config 0 0
       \<lparr>year = 2024, month = 1, day = 8\<rparr> \<lparr>year = 2024, month = 1, day = 14\<rparr> False = 0"
  "sum_list (map (\<lambda>m. - share_payout 0 [(''Bett'', 100), (''Felix'', 100), (''Willy'', 100)] m)
     (FIXED_SHARES Config)) = 300"
  "map (\<lambda>m. (fst m, if fst m = ''Felix'' \<and> \<not> False
                         then quant (FELIX_DAILY_SALARY Config * 7) else 0)) (FIXED_SHARES Config) =
   [(''Bett'', 0), (''Felix'', 7000), (''Willy'', 0)]"
  "map (\<lambda>m. (fst m, 0::rat)) (FIXED_SHARES Config) = [(''Bett'', 0), (''Felix'', 0), (''Willy'', 0)]"
  by code_simp+

theorem all_over_advanced_witness:
  "distinct (map fst (FIXED_SHARES Config)) \<and>
   list_all (over_advanced (net_distributable_of Config 0 0
       \<lparr>year = 2024, month = 1, day = 8\<rparr> \<lparr>year = 2024, month = 1, day = 14\<rparr> False)
     [(''Bett'', 100), (''Felix'', 100), (''Willy'', 100)]) (FIXED_SHARES Config) \<and>
   (\<exists>res ip oam toa.
      calculate_settlement_values Config 0 0 [(''Bett'', 100), (''Felix'', 100), (''Willy'', 100)]
        \<lparr>year = 2024, month = 1, day = 8\<rparr> \<lparr>year = 2024, month = 1, day = 14\<rparr> False = Inr res \<and>
      first_pass (net_distributable res) [(''Bett'', 100), (''Felix'', 100), (''Willy'', 100)]
        (FIXED_SHARES Config) ([], [], 0) = (ip, oam, toa) \<and>
      ip = [(''Bett'', 0), (''Felix'', 0), (''Willy'', 0)] \<and>
      toa = 300 \<and>
      redistribute (FIXED_SHARES Config) oam toa ip = Inr ip \<and>
      net_payouts res = [(''Bett'', 0), (''Felix'', 7000), (''Willy'', 0)])"
proof -
  have d: "distinct (map fst (FIXED_SHARES Config))" by (simp add: Config_def)
  from all_over_advanced [OF d all_over_advanced_example(1)]
  obtain res ip oam toa where h:
    "calculate_settlement_values Config 0 0 [(''Bett'', 100), (''Felix'', 100), (''Willy'', 100)]
        \<lparr>year = 2024, month = 1, day = 8\<rparr> \<lparr>year = 2024, month = 1, day = 14\<rparr> False = Inr res"
    "net_distributable res = 0"
    "first_pass (net_distributable res) [(''Bett'', 100), (''Felix'', 100), (''Willy'', 100)]
        (FIXED_SHARES Config) ([], [], 0) = (ip, oam, toa)"
    "ip = [(''Bett'', 0), (''Felix'', 0), (''Willy'', 0)]"
    "toa = sum_list (map (\<lambda>m. - share_payout (net_distributable res)
        [(''Bett'', 100), (''Felix'', 100), (''Willy'', 100)] m) (FIXED_SHARES Config))"
    "redistribute (FIXED_SHARES Config) oam toa ip = Inr ip"
    "net_payouts res = [(''Bett'', 0), (''Felix'', 7000), (''Willy'', 0)]"
    unfolding all_over_advanced_example by blast
  have "toa = 300" using h(5) unfolding h(2) all_over_advanced_example .
  then show ?thesis using d all_over_advanced_example(1) h by blast
qed

section \<open>Accounting identity and redistribution\<close>

lemma sum_quant_error:
  "\<bar>sum_list (map (\<lambda>x. quant (f x)) xs) - sum_list (map f xs)\<bar> \<le> of_nat (length xs) / 200"
proof (induction xs)
  case Nil
  then show ?case by simp
next
  case (Cons x xs)
  have a: "\<bar>quant (f x) - f x\<bar> \<le> 1 / 200" by (rule quant_error)
  have "\<bar>sum_list (map (\<lambda>x. quant (f x)) (x # xs)) - sum_list (map f (x # xs))\<bar> =
        \<bar>(quant (f x) - f x) + (sum_list (map (\<lambda>x. quant (f x)) xs) - sum_list (map f xs))\<bar>"
    by (simp add: algebra_simps)
  also have "\<dots> \<le> \<bar>quant (f x) - f x\<bar> +
        \<bar>sum_list (map (\<lambda>x. quant (f x)) xs) - sum_list (map f xs)\<bar>"
    by (rule abs_triangle_ineq)
  also have "\<dots> \<le> 1 / 200 + of_nat (length xs) / 200"
    using a Cons.IH by (rule add_mono)
  also have "\<dots> = of_nat (length (x # xs)) / 200" by (simp add: field_simps)
  finally show ?case .
qed

lemma sum_list_if_key:
  "distinct (map fst xs) \<Longrightarrow>
   sum_list (map (\<lambda>m. if fst m = k then c else (0::rat)) xs) =
   (if k \<in> set (map fst xs) then c else 0)"
  by (induction xs) auto


text \<open>
  C2, as amended. When no member is over-advanced and the share ratios sum to 1, the
  calculator returns, and the sum of the final payouts, plus the quantized advances of the
  members, minus the salary deduction when Felix is a member, equals the net distributable
  amount up to 0.01 per member. (The sum of the final payouts alone does not: the advances
  are taken out of it and the salary is added to it.)
\<close>

theorem accounting_identity:
  assumes "distinct (map fst (FIXED_SHARES cfg))"
    and "sum_list (map snd (FIXED_SHARES cfg)) = 1"
    and "list_all (\<lambda>m. \<not> over_advanced (net_distributable_of cfg ti te ws we sub) adv m)
           (FIXED_SHARES cfg)"
  shows "\<exists>res. calculate_settlement_values cfg ti te adv ws we sub = Inr res \<and>
     net_distributable res = net_distributable_of cfg ti te ws we sub \<and>
     \<bar>sum_list (map snd (net_payouts res)) +
       sum_list (map (\<lambda>m. quant (dict_get adv (fst m) 0)) (FIXED_SHARES cfg)) -
       (if ''Felix'' \<in> set (map fst (FIXED_SHARES cfg)) then salary_total res else 0) -
       net_distributable res\<bar> \<le> of_nat (length (FIXED_SHARES cfg)) / 100"
proof -
  let ?nd = "net_distributable_of cfg ti te ws we sub"
  let ?shares = "FIXED_SHARES cfg"
  define res where "res =
     \<lparr>income = quant ti, expenses = quant te, salary_total = salary_of cfg sub,
      debt = quant (quant ti * DEBT_PERCENT cfg),
      rent = (if is_last_week_of_month ws we then RENT cfg else 0),
      milk = (if is_last_week_of_month ws we then MILK_BILL cfg else 0),
      total_advances = quant (sum_list (map snd adv)),
      net_distributable = ?nd,
      gross_shares = map (\<lambda>(n, r). (n, quant (?nd * r))) ?shares,
      net_payouts =
        map (\<lambda>(n, p). (n, if n = ''Felix'' \<and> \<not> sub then p + salary_of cfg sub else p))
          (map (\<lambda>m. (fst m, provisional_payout ?nd adv ?shares m)) ?shares),
      week_start = ws, week_end = we, felix_substitute = sub\<rparr>"
  have d: "distinct (map fst ?shares)" by (rule assms(1))
  have normal: "\<And>m. m \<in> set ?shares \<Longrightarrow> \<not> over_advanced ?nd adv m"
    using assms(3) by (simp add: list_all_iff)
  have filt: "filter (over_advanced ?nd adv) ?shares = []"
    using normal by (simp add: filter_empty_conv)
  have prov: "\<And>m. m \<in> set ?shares \<Longrightarrow>
      provisional_payout ?nd adv ?shares m = share_payout ?nd adv m"
    using normal by (simp add: provisional_payout_def total_excess_def filt)
  have V: "normal_share_total ?nd adv ?shares = 1"
    using normal assms(2) by (simp add: normal_share_total_def cong: filter_cong)
  have calc: "calculate_settlement_values cfg ti te adv ws we sub = Inr res"
    unfolding res_def using assms(1) V by (intro calc_eq) auto
  have f1: "net_distributable res = ?nd" and f2: "salary_total res = salary_of cfg sub"
    by (simp_all add: res_def)
  have "map snd (net_payouts res) =
       map (\<lambda>m. share_payout ?nd adv m + (if fst m = ''Felix'' then salary_of cfg sub else 0)) ?shares"
    unfolding res_def using prov by (auto simp: salary_of_def)
  then have "sum_list (map snd (net_payouts res)) =
      sum_list (map (share_payout ?nd adv) ?shares) +
      (if ''Felix'' \<in> set (map fst ?shares) then salary_of cfg sub else 0)"
    using sum_list_if_key [OF d, of "''Felix''" "salary_of cfg sub"] by (simp add: sum_list_addf)
  moreover have "sum_list (map (share_payout ?nd adv) ?shares) =
      sum_list (map (\<lambda>m. quant (?nd * snd m)) ?shares) -
      sum_list (map (\<lambda>m. quant (dict_get adv (fst m) 0)) ?shares)"
    unfolding share_payout_def by (rule sum_list_subtractf)
  ultimately have f3: "sum_list (map snd (net_payouts res)) +
       sum_list (map (\<lambda>m. quant (dict_get adv (fst m) 0)) ?shares) -
       (if ''Felix'' \<in> set (map fst ?shares) then salary_total res else 0) -
       net_distributable res =
       sum_list (map (\<lambda>m. quant (?nd * snd m)) ?shares) - ?nd"
    unfolding f1 f2 by simp
  have s3: "sum_list (map (\<lambda>m. ?nd * snd m) ?shares) = ?nd"
    using assms(2) by (simp add: sum_list_const_mult)
  have "\<bar>sum_list (map (\<lambda>m. quant (?nd * snd m)) ?shares) -
         sum_list (map (\<lambda>m. ?nd * snd m) ?shares)\<bar> \<le> of_nat (length ?shares) / 200"
    by (rule sum_quant_error)
  also have "\<dots> \<le> of_nat (length ?shares) / 100" by (simp add: field_simps)
  finally have "\<bar>sum_list (map (\<lambda>m. quant (?nd * snd m)) ?shares) - ?nd\<bar>
      \<le> of_nat (length ?shares) / 100"
    unfolding s3 .
  then have "\<bar>sum_list (map snd (net_payouts res)) +
       sum_list (map (\<lambda>m. quant (dict_get adv (fst m) 0)) ?shares) -
       (if ''Felix'' \<in> set (map fst ?shares) then salary_total res else 0) -
       net_distributable res\<bar> \<le> of_nat (length ?shares) / 100"
    unfolding f3 .
  with calc f1 show ?thesis by blast
qed

lemma spec_example_facts:
  "distinct (map fst (FIXED_SHARES Config))"
  "sum_list (map snd (FIXED_SHARES Config)) = 1"
  "list_all (\<lambda>m. \<not> over_advanced (net_distributable_of Config 100000 20000
       \<lparr>year = 2024, month = 1, day = 8\<rparr> \<lparr>year = 2024, month = 1, day = 14\<rparr> False)
     [(''Bett'', 5000)] m) (FIXED_SHARES Config)"
  "list_all (\<lambda>m. \<not> over_advanced 63000 [(''Bett'', 5000)] m) (FIXED_SHARES Config)"
  by code_simp+

theorem accounting_identity_witness:
  "distinct (map fst (FIXED_SHARES Config)) \<and>
   sum_list (map snd (FIXED_SHARES Config)) = 1 \<and>
   list_all (\<lambda>m. \<not> over_advanced (net_distributable_of Config 100000 20000
       \<lparr>year = 2024, month = 1, day = 8\<rparr> \<lparr>year = 2024, month = 1, day = 14\<rparr> False)
     [(''Bett'', 5000)] m) (FIXED_SHARES Config) \<and>
   (\<exists>res. calculate_settlement_values Config 100000 20000 [(''Bett'', 5000)]
            \<lparr>year = 2024, month = 1, day = 8\<rparr> \<lparr>year = 2024, month = 1, day = 14\<rparr> False =
          Inr res \<and>
      net_distributable res = 63000 \<and>
      net_payouts res = [(''Bett'', 43825), (''Felix'', 12418), (''Willy'', 8757)] \<and>
      \<bar>sum_list (map snd (net_payouts res)) +
        sum_list (map (\<lambda>m. quant (dict_get [(''Bett'', 5000)] (fst m) 0)) (FIXED_SHARES Config)) -
        (if ''Felix'' \<in> set (map fst (FIXED_SHARES Config)) then salary_total res else 0) -
        net_distributable res\<bar> \<le> of_nat (length (FIXED_SHARES Config)) / 100)"
  using accounting_identity [OF spec_example_facts(1,2,3)] spec_example_facts(1,2,3)
  unfolding calc_spec_example by simp

text \<open>
  C2 as stated fails on the example of the specification: nobody is over-advanced, the net
  distributable amount is 63000 and the final payouts sum to 65000.
\<close>

theorem accounting_identity_counterexample:
  "calculate_settlement_values Config 100000 20000 [(''Bett'', 5000)]
     \<lparr>year = 2024, month = 1, day = 8\<rparr> \<lparr>year = 2024, month = 1, day = 14\<rparr> False =
   Inr \<lparr>income = 100000, expenses = 20000, salary_total = 7000, debt = 10000, rent = 0, milk = 0,
        total_advances = 5000, net_distributable = 63000,
        gross_shares = [(''Bett'', 48825), (''Felix'', 5418), (''Willy'', 8757)],
        net_payouts = [(''Bett'', 43825), (''Felix'', 12418), (''Willy'', 8757)],
        week_start = \<lparr>year = 2024, month = 1, day = 8\<rparr>,
        week_end = \<lparr>year = 2024, month = 1, day = 14\<rparr>,
        felix_substitute = False\<rparr> \<and>
   list_all (\<lambda>m. \<not> over_advanced 63000 [(''Bett'', 5000)] m) (FIXED_SHARES Config) \<and>
   sum_list (map snd [(''Bett'', 43825), (''Felix'', 12418), (''Willy'', 8757 :: rat)]) = 65000 \<and>
   \<not> \<bar>65000 - 63000\<bar> \<le> rat_of_nat (length (FIXED_SHARES Config)) / 100"
  using calc_spec_example spec_example_facts(4) by (simp add: Config_def)








section \<open>Month-end deductions\<close>

lemma date_eqI: "year a = year b \<Longrightarrow> month a = month b \<Longrightarrow> day a = day b \<Longrightarrow> a = (b :: date)"
  by simp

lemma monthrange_days_bounds: "28 \<le> monthrange_days y m" "monthrange_days y m \<le> 31"
  by (simp_all add: monthrange_days_def)

lemma date_le_refl: "date_le d d"
  by (simp add: date_le_def)

lemma date_le_trans: "date_le a b \<Longrightarrow> date_le b c \<Longrightarrow> date_le a c"
  by (auto simp: date_le_def)

lemma date_le_antisym: "date_le a b \<Longrightarrow> date_le b a \<Longrightarrow> a = b"
  by (rule date_eqI) (auto simp: date_le_def)

lemma date_le_next_day: "date_le d (next_day d)"
  by (simp add: date_le_def next_day_def)

lemma date_fields_ok_next_day: "date_fields_ok d \<Longrightarrow> date_fields_ok (next_day d)"
  using monthrange_days_bounds(1) [of "year d" "month d"]
    monthrange_days_bounds(1) [of "year d" "Suc (month d)"]
    monthrange_days_bounds(1) [of "Suc (year d)" 1]
  by (auto simp: date_fields_ok_def next_day_def)

lemma date_fields_ok_funpow: "date_fields_ok d \<Longrightarrow> date_fields_ok ((next_day ^^ n) d)"
  by (induction n) (simp_all add: date_fields_ok_next_day)

lemma next_day_discrete:
  assumes "date_fields_ok e" and "date_fields_ok x" and "date_le x (next_day e)"
  shows "x = next_day e \<or> date_le x e"
proof (cases "date_le x e")
  case True
  then show ?thesis by simp
next
  case False
  have kx: "year x = year e \<Longrightarrow> month x = month e \<Longrightarrow>
      day x \<le> monthrange_days (year e) (month e)"
    using assms(2) by (simp add: date_fields_ok_def)
  have e: "1 \<le> month e" "month e \<le> 12" "1 \<le> day e"
      "day e \<le> monthrange_days (year e) (month e)"
    and x: "1 \<le> month x" "month x \<le> 12" "1 \<le> day x"
    using assms(1,2) by (simp_all add: date_fields_ok_def)
  consider (a) "day e < monthrange_days (year e) (month e)"
    | (b) "day e = monthrange_days (year e) (month e)" "month e < 12"
    | (c) "day e = monthrange_days (year e) (month e)" "month e = 12"
    using e by linarith
  then have "year x = year (next_day e) \<and> month x = month (next_day e) \<and>
      day x = day (next_day e)"
  proof cases
    case a
    then have n: "next_day e = \<lparr>year = year e, month = month e, day = day e + 1\<rparr>"
      by (simp add: next_day_def)
    show ?thesis using assms(3) False unfolding n by (auto simp: date_le_def)
  next
    case b
    then have n: "next_day e = \<lparr>year = year e, month = month e + 1, day = 1\<rparr>"
      by (simp add: next_day_def)
    have "year x = year e" using assms(3) False unfolding n by (auto simp: date_le_def)
    moreover have "month x = month e + 1"
      using assms(3) False kx b(1) unfolding n by (auto simp: date_le_def)
    moreover have "day x = 1"
      using assms(3) False x(3) calculation unfolding n by (auto simp: date_le_def)
    ultimately show ?thesis unfolding n by simp
  next
    case c
    then have n: "next_day e = \<lparr>year = year e + 1, month = 1, day = 1\<rparr>"
      by (simp add: next_day_def)
    have y: "year x = year e + 1"
      using assms(3) False kx c x(2) unfolding n by (auto simp: date_le_def)
    moreover have "month x = 1"
      using assms(3) x(1) y unfolding n by (auto simp: date_le_def)
    moreover have "day x = 1"
      using assms(3) x(3) calculation unfolding n by (auto simp: date_le_def)
    ultimately show ?thesis unfolding n by simp
  qed
  then have "x = next_day e" by (intro date_eqI) simp_all
  then show ?thesis by simp
qed

lemma between_days:
  assumes "date_fields_ok d" and "date_fields_ok x" and "date_le d x"
    and "date_le x ((next_day ^^ n) d)"
  shows "\<exists>k\<le>n. x = (next_day ^^ k) d"
  using assms(4)
proof (induction n)
  case 0
  then have "x = d" using assms(3) by (simp add: date_le_antisym)
  then show ?case by simp
next
  case (Suc n)
  have "date_fields_ok ((next_day ^^ n) d)" using assms(1) by (rule date_fields_ok_funpow)
  then have "x = next_day ((next_day ^^ n) d) \<or> date_le x ((next_day ^^ n) d)"
    using assms(2) Suc.prems by (intro next_day_discrete) simp_all
  then show ?case
  proof
    assume "x = next_day ((next_day ^^ n) d)"
    then have "x = (next_day ^^ Suc n) d" by simp
    then show ?thesis by blast
  next
    assume "date_le x ((next_day ^^ n) d)"
    then obtain k where "k \<le> n" "x = (next_day ^^ k) d" using Suc.IH by blast
    then show ?thesis by (auto intro: le_SucI)
  qed
qed

lemma date_le_funpow: "date_le d ((next_day ^^ n) d)"
proof (induction n)
  case 0
  then show ?case by (simp add: date_le_refl)
next
  case (Suc n)
  from Suc date_le_next_day [of "(next_day ^^ n) d"]
  have "date_le d (next_day ((next_day ^^ n) d))" by (rule date_le_trans)
  then show ?case by simp
qed

lemma date_le_funpow_mono:
  assumes "k \<le> n"
  shows "date_le ((next_day ^^ k) d) ((next_day ^^ n) d)"
proof -
  have "(next_day ^^ ((n - k) + k)) d = (next_day ^^ (n - k)) ((next_day ^^ k) d)"
    by (simp only: funpow_add comp_apply)
  then have "(next_day ^^ n) d = (next_day ^^ (n - k)) ((next_day ^^ k) d)"
    using assms by simp
  then show ?thesis by (simp only: date_le_funpow)
qed

lemma is_last_week_of_month_iff:
  assumes "valid_date ws"
  shows "is_last_week_of_month ws ((next_day ^^ 6) ws) \<longleftrightarrow>
         last_day_of_month ws \<in> set (week_days ws)"
proof -
  have ok: "date_fields_ok ws" using assms by (simp add: valid_date_def date_fields_ok_def)
  have ok_last: "date_fields_ok (last_day_of_month ws)"
    using ok monthrange_days_bounds(1) [of "year ws" "month ws"]
    by (simp add: date_fields_ok_def last_day_of_month_def)
  have le: "date_le ws (last_day_of_month ws)"
    using ok by (simp add: date_le_def last_day_of_month_def date_fields_ok_def)
  have iff: "is_last_week_of_month ws ((next_day ^^ 6) ws) \<longleftrightarrow>
      date_le (last_day_of_month ws) ((next_day ^^ 6) ws)"
    using le by (simp add: is_last_week_of_month_def last_day_of_month_def Let_def)
  have mem: "last_day_of_month ws \<in> set (week_days ws) \<longleftrightarrow>
      (\<exists>k<7. last_day_of_month ws = (next_day ^^ k) ws)"
    unfolding week_days_def set_map set_upt image_iff by auto
  show ?thesis
  proof
    assume "is_last_week_of_month ws ((next_day ^^ 6) ws)"
    then have "date_le (last_day_of_month ws) ((next_day ^^ 6) ws)" using iff by simp
    then have "\<exists>k\<le>6. last_day_of_month ws = (next_day ^^ k) ws"
      using ok ok_last le by (intro between_days)
    then obtain k where "k \<le> 6" "last_day_of_month ws = (next_day ^^ k) ws" by blast
    then have "\<exists>k<7. last_day_of_month ws = (next_day ^^ k) ws"
      by (intro exI [of _ k]) simp
    then show "last_day_of_month ws \<in> set (week_days ws)" using mem by simp
  next
    assume "last_day_of_month ws \<in> set (week_days ws)"
    then obtain k where k7: "k < 7" and kk: "last_day_of_month ws = (next_day ^^ k) ws"
      using mem by blast
    from k7 have "k \<le> 6" by simp
    note k = this kk
    then have "date_le (last_day_of_month ws) ((next_day ^^ 6) ws)"
      using date_le_funpow_mono [OF k(1), of ws] by simp
    then show "is_last_week_of_month ws ((next_day ^^ 6) ws)" using iff by simp
  qed
qed

lemma week_days_unroll:
  "week_days d = [d, next_day d, (next_day ^^ 2) d, (next_day ^^ 3) d, (next_day ^^ 4) d,
     (next_day ^^ 5) d, (next_day ^^ 6) d]"
proof -
  have "[0..<7] = [0, 1, 2, 3, 4, 5, 6 :: nat]" by (simp add: upt_rec)
  then show ?thesis by (simp add: week_days_def)
qed

lemma date_add_days_6: "date_add_days ws 6 = Inr we \<Longrightarrow> we = (next_day ^^ 6) ws"
  by (simp add: date_add_days_def Let_def split: if_splits)

text \<open>
  C8. For a week that starts on a valid date and ends six days later (every Monday to Sunday
  pair is one), the calculator deducts the configured rent and milk amounts when one of the
  seven days of the week is the last day of the month of the first day, and deducts 0 for both
  otherwise; in particular both are 0 when the last day of the week lies in the same month
  before its last day.
\<close>

theorem month_end_deductions:
  assumes "valid_config cfg" and "valid_date ws" and "date_add_days ws 6 = Inr we"
  shows "\<exists>res. calculate_settlement_values cfg ti te adv ws we sub = Inr res \<and>
     rent res = (if last_day_of_month ws \<in> set (week_days ws) then RENT cfg else 0) \<and>
     milk res = (if last_day_of_month ws \<in> set (week_days ws) then MILK_BILL cfg else 0) \<and>
     (year we = year ws \<and> month we = month ws \<and>
      day we < monthrange_days (year ws) (month ws) \<longrightarrow> rent res = 0 \<and> milk res = 0)"
proof -
  have we: "we = (next_day ^^ 6) ws" using assms(3) by (rule date_add_days_6)
  have iff: "is_last_week_of_month ws we \<longleftrightarrow> last_day_of_month ws \<in> set (week_days ws)"
    unfolding we using assms(2) by (rule is_last_week_of_month_iff)
  have interior: "\<not> is_last_week_of_month ws we"
    if "year we = year ws \<and> month we = month ws \<and>
        day we < monthrange_days (year ws) (month ws)"
    using that by (simp add: is_last_week_of_month_def date_le_def)
  show ?thesis
    unfolding calc_returns [OF assms(1)]
    using iff interior by auto
qed

lemma month_end_example:
  "valid_date \<lparr>year = 2024, month = 1, day = 29\<rparr>"
  "date_add_days \<lparr>year = 2024, month = 1, day = 29\<rparr> 6 = Inr \<lparr>year = 2024, month = 2, day = 4\<rparr>"
  "week_start_end_for_date \<lparr>year = 2024, month = 1, day = 31\<rparr> =
     Inr (\<lparr>year = 2024, month = 1, day = 29\<rparr>, \<lparr>year = 2024, month = 2, day = 4\<rparr>)"
  "last_day_of_month \<lparr>year = 2024, month = 1, day = 29\<rparr> = \<lparr>year = 2024, month = 1, day = 31\<rparr>"
  "\<lparr>year = 2024, month = 1, day = 31\<rparr> \<in> set (week_days \<lparr>year = 2024, month = 1, day = 29\<rparr>)"
  by (simp_all add: valid_date_def date_eval last_day_of_month_def week_days_unroll)

lemma interior_example:
  "valid_date \<lparr>year = 2024, month = 1, day = 8\<rparr>"
  "date_add_days \<lparr>year = 2024, month = 1, day = 8\<rparr> 6 = Inr \<lparr>year = 2024, month = 1, day = 14\<rparr>"
  "week_start_end_for_date \<lparr>year = 2024, month = 1, day = 10\<rparr> =
     Inr (\<lparr>year = 2024, month = 1, day = 8\<rparr>, \<lparr>year = 2024, month = 1, day = 14\<rparr>)"
  "last_day_of_month \<lparr>year = 2024, month = 1, day = 8\<rparr> = \<lparr>year = 2024, month = 1, day = 31\<rparr>"
  "\<lparr>year = 2024, month = 1, day = 31\<rparr> \<notin> set (week_days \<lparr>year = 2024, month = 1, day = 8\<rparr>)"
  by (simp_all add: valid_date_def date_eval last_day_of_month_def week_days_unroll)

theorem month_end_deductions_witness:
  "valid_config Config \<and>
   valid_date \<lparr>year = 2024, month = 1, day = 29\<rparr> \<and>
   date_add_days \<lparr>year = 2024, month = 1, day = 29\<rparr> 6 = Inr \<lparr>year = 2024, month = 2, day = 4\<rparr> \<and>
   week_start_end_for_date \<lparr>year = 2024, month = 1, day = 31\<rparr> =
     Inr (\<lparr>year = 2024, month = 1, day = 29\<rparr>, \<lparr>year = 2024, month = 2, day = 4\<rparr>) \<and>
   last_day_of_month \<lparr>year = 2024, month = 1, day = 29\<rparr> \<in>
     set (week_days \<lparr>year = 2024, month = 1, day = 29\<rparr>) \<and>
   (\<exists>res. calculate_settlement_values Config 100000 20000 []
            \<lparr>year = 2024, month = 1, day = 29\<rparr> \<lparr>year = 2024, month = 2, day = 4\<rparr> False = Inr res \<and>
          rent res = 12000 \<and> milk res = 1500) \<and>
   valid_date \<lparr>year = 2024, month = 1, day = 8\<rparr> \<and>
   date_add_days \<lparr>year = 2024, month = 1, day = 8\<rparr> 6 = Inr \<lparr>year = 2024, month = 1, day = 14\<rparr> \<and>
   last_day_of_month \<lparr>year = 2024, month = 1, day = 8\<rparr> \<notin>
     set (week_days \<lparr>year = 2024, month = 1, day = 8\<rparr>) \<and>
   (\<exists>res. calculate_settlement_values Config 100000 20000 []
            \<lparr>year = 2024, month = 1, day = 8\<rparr> \<lparr>year = 2024, month = 1, day = 14\<rparr> False = Inr res \<and>
          rent res = 0 \<and> milk res = 0)"
proof -
  have a: "\<exists>res. calculate_settlement_values Config 100000 20000 []
            \<lparr>year = 2024, month = 1, day = 29\<rparr> \<lparr>year = 2024, month = 2, day = 4\<rparr> False = Inr res \<and>
          rent res = 12000 \<and> milk res = 1500"
    using month_end_deductions [OF valid_config_Config month_end_example(1,2), of 100000 20000 "[]" False]
    unfolding month_end_example(4) using month_end_example(5) by (auto simp: Config_def)
  have b: "\<exists>res. calculate_settlement_values Config 100000 20000 []
            \<lparr>year = 2024, month = 1, day = 8\<rparr> \<lparr>year = 2024, month = 1, day = 14\<rparr> False = Inr res \<and>
          rent res = 0 \<and> milk res = 0"
    using month_end_deductions [OF valid_config_Config interior_example(1,2), of 100000 20000 "[]" False]
    unfolding interior_example(4) using interior_example(5) by auto
  show ?thesis
    using valid_config_Config month_end_example interior_example a b by (simp only:) simp
qed

section \<open>The debt ledger\<close>

lemma apply_debt_payment_invariant:
  "debt_invariant d \<Longrightarrow> 0 \<le> debt_payment \<Longrightarrow>
   debt_invariant (fst (apply_debt_payment d debt_payment))"
  by (auto simp: debt_invariant_def apply_debt_payment_def)

lemma reverse_debt_payment_invariant:
  "debt_invariant d \<Longrightarrow> debt_invariant (reverse_debt_payment d deduction)"
  by (auto simp: debt_invariant_def reverse_debt_payment_def Let_def)

text \<open>
  C7. With a positive remaining debt the payment applied is the smaller of the debt due and
  the remaining debt, the remaining debt falls by exactly that payment and the total debt is
  unchanged; with a remaining debt of zero the debt due is added to the total and to the
  remaining debt and no payment is applied.
\<close>

theorem apply_debt_payment_branches:
  "(0 < remaining_debt d \<longrightarrow>
      snd (apply_debt_payment d debt_due) = min debt_due (remaining_debt d) \<and>
      remaining_debt (fst (apply_debt_payment d debt_due)) =
        remaining_debt d - min debt_due (remaining_debt d) \<and>
      total_debt (fst (apply_debt_payment d debt_due)) = total_debt d) \<and>
   (remaining_debt d = 0 \<longrightarrow>
      snd (apply_debt_payment d debt_due) = 0 \<and>
      total_debt (fst (apply_debt_payment d debt_due)) = total_debt d + debt_due \<and>
      remaining_debt (fst (apply_debt_payment d debt_due)) = remaining_debt d + debt_due)"
  by (simp add: apply_debt_payment_def min_def)

theorem apply_debt_payment_branches_witness:
  "apply_debt_payment \<lparr>total_debt = 100, remaining_debt = 50\<rparr> 30 =
     (\<lparr>total_debt = 100, remaining_debt = 20\<rparr>, 30) \<and>
   apply_debt_payment \<lparr>total_debt = 100, remaining_debt = 50\<rparr> 80 =
     (\<lparr>total_debt = 100, remaining_debt = 0\<rparr>, 50) \<and>
   apply_debt_payment \<lparr>total_debt = 100, remaining_debt = 0\<rparr> 30 =
     (\<lparr>total_debt = 130, remaining_debt = 30\<rparr>, 0)"
  using apply_debt_payment_branches [of "\<lparr>total_debt = 100, remaining_debt = 50\<rparr>" 30]
    apply_debt_payment_branches [of "\<lparr>total_debt = 100, remaining_debt = 50\<rparr>" 80]
    apply_debt_payment_branches [of "\<lparr>total_debt = 100, remaining_debt = 0\<rparr>" 30]
  by (simp add: prod_eq_iff)

text \<open>
  C6. The invariant \<open>0 \<le> remaining_debt \<le> total_debt\<close> is kept by the debt transition
  of a settlement with a non-negative debt due and by the reversal (the two lemmas above), but
  not by the admin update: from a debt row that satisfies it, an admin request with a
  remaining debt of 200 against a total of 100 succeeds and stores a row that violates it.
\<close>

theorem update_debt_breaks_invariant:
  "debt_invariant \<lparr>total_debt = 100, remaining_debt = 50\<rparr> \<and>
   api_update_debt ''admin'' 200
     (empty_db\<lparr>debt_row := Some \<lparr>total_debt = 100, remaining_debt = 50\<rparr>\<rparr>) =
     (Success, empty_db\<lparr>debt_row := Some \<lparr>total_debt = 100, remaining_debt = 200\<rparr>\<rparr>) \<and>
   \<not> debt_invariant \<lparr>total_debt = 100, remaining_debt = 200\<rparr>"
  by (simp add: debt_invariant_def api_update_debt_def empty_db_def)

section \<open>Validation of a settlement request\<close>

lemma week_of_2024_01_10:
  "week_start_end_for_date \<lparr>year = 2024, month = 1, day = 10\<rparr> =
   Inr (\<lparr>year = 2024, month = 1, day = 8\<rparr>, \<lparr>year = 2024, month = 1, day = 14\<rparr>)"
  by (simp add: date_eval)

text \<open>
  C5. A request with an income of -100 is one that \<open>validate_settlement_data\<close> rejects, but
  \<open>api_create_settlement\<close> does not call the validation: on an empty database the request
  succeeds, a settlement with income -100 and a payout of 7000 is stored, and the debt row
  becomes negative.
\<close>

theorem create_settlement_negative_income:
  "validate_settlement_data empty_db (- 100) 0 \<lparr>year = 2024, month = 1, day = 10\<rparr> =
     [''Income must be greater than 0'', ''Income cannot be less than expenses''] \<and>
   api_create_settlement Config \<lparr>year = 2024, month = 1, day = 10\<rparr> None (- 100) 0 False empty_db =
     Inr (Success,
      \<lparr>debt_row = Some \<lparr>total_debt = - 10, remaining_debt = - 10\<rparr>,
         settlements =
           [\<lparr>settlement_id = 1,
               s_week_start = \<lparr>year = 2024, month = 1, day = 8\<rparr>,
               s_week_end = \<lparr>year = 2024, month = 1, day = 14\<rparr>,
               total_income = - 100, total_expenses = 0,
               salary_deduction = 7000, debt_deduction = - 10,
               rent_deduction = None, milk_deduction = None,
               s_total_advances = 0, s_net_distributable = 0,
               s_felix_substitute = False, is_completed = False\<rparr>],
         settlement_items =
           [\<lparr>item_settlement_id = 1, member_name = ''Bett'',
               share_ratio = 0, gross_share = 0, advance = 0, net_payout = 0\<rparr>,
            \<lparr>item_settlement_id = 1, member_name = ''Felix'',
               share_ratio = 0, gross_share = 0, advance = 0, net_payout = 7000\<rparr>,
            \<lparr>item_settlement_id = 1, member_name = ''Willy'',
               share_ratio = 0, gross_share = 0, advance = 0, net_payout = 0\<rparr>],
         weekly_advances = []\<rparr>)"
  by (simp del: One_nat_def add: validate_settlement_data_def api_create_settlement_def
      week_of_2024_01_10 calc_negative_income get_weekly_advances_def empty_db_def
      new_settlement_id_def apply_debt_payment_def dict_get_def dict_keys_def quant_zero)

end
